theory Spec2Isabelle
  imports Main "HOL-Library.Word"
begin

section \<open>Values of the program\<close>

text \<open>
  The package \<^verbatim>\<open>s3c4\<close> stores byte payloads in an S3 bucket under keys derived from c4
  identifiers. Payloads are Go byte slices, durations are \<^verbatim>\<open>time.Duration\<close> (a signed count
  of nanoseconds), bucket names and keys are Go strings.
\<close>

type_synonym bytes = "8 word list"
type_synonym Duration = int

text \<open>
  \<^verbatim>\<open>c4.ID\<close> belongs to the library \<^verbatim>\<open>github.com/Avalanche-io/c4\<close>. The store only ever calls
  \<^verbatim>\<open>id.String()\<close>, so an identifier is represented by its canonical string.
\<close>

datatype ID = ID (String: string)

text \<open>
  Go error values that occur in the package. \<open>Errorf\<close> carries the formatted message of a
  \<^verbatim>\<open>fmt.Errorf\<close>; \<open>AwsErr\<close> is an error returned by the AWS SDK, identified with the text its
  \<^verbatim>\<open>Error()\<close> method prints; \<open>PathError\<close> is \<^verbatim>\<open>os.PathError{Op, Path, Err}\<close>.
\<close>

datatype error =
    EOF
  | ErrClosedPipe
  | ErrExist
  | Errorf string
  | PathError string string error
  | ErrConfirmationTimeout ID Duration
  | AwsErr string

section \<open>The Go library functions the key computation calls\<close>

text \<open>
  The source imports \<^verbatim>\<open>filepath "path"\<close>: the name \<^verbatim>\<open>filepath\<close> is bound to the slash-separated
  package \<^verbatim>\<open>path\<close>. \<open>Join\<close> and \<open>Clean\<close> follow that package: \<open>Clean\<close> walks the path with a
  read position and an output buffer \<open>out\<close>; \<open>dotdot\<close> is the length of the output below which
  a \<^verbatim>\<open>..\<close> element may not backtrack.
\<close>

primrec backtrack :: "string \<Rightarrow> nat \<Rightarrow> nat \<Rightarrow> nat" where
  "backtrack out dotdot 0 = 0"
| "backtrack out dotdot (Suc k) =
     (if Suc k > dotdot \<and> out ! Suc k \<noteq> CHR ''/'' then backtrack out dotdot k else Suc k)"

function clean_loop :: "bool \<Rightarrow> string \<Rightarrow> string \<Rightarrow> nat \<Rightarrow> string" where
  "clean_loop rooted [] out dotdot = out"
| "clean_loop rooted (c # rest) out dotdot =
     (if c = CHR ''/'' then clean_loop rooted rest out dotdot
      else if c = CHR ''.'' \<and> (rest = [] \<or> hd rest = CHR ''/'') then
        clean_loop rooted rest out dotdot
      else if c = CHR ''.'' \<and> hd rest = CHR ''.'' \<and> (tl rest = [] \<or> hd (tl rest) = CHR ''/'') then
        (if length out > dotdot then
           clean_loop rooted (tl rest) (take (backtrack out dotdot (length out - 1)) out) dotdot
         else if \<not> rooted then
           (let out1 = (if length out > 0 then out @ ''/'' else out) @ ''..''
            in clean_loop rooted (tl rest) out1 (length out1))
         else clean_loop rooted (tl rest) out dotdot)
      else
        (let out1 = (if (rooted \<and> length out \<noteq> 1) \<or> (\<not> rooted \<and> length out \<noteq> 0)
                     then out @ ''/'' else out)
         in clean_loop rooted (dropWhile (\<lambda>x. x \<noteq> CHR ''/'') rest)
              (out1 @ c # takeWhile (\<lambda>x. x \<noteq> CHR ''/'') rest) dotdot))"
  by pat_completeness auto
termination
  by (relation "measure (\<lambda>(rooted, path, out, dotdot). length path)")
     (auto simp: less_Suc_eq_le length_dropWhile_le intro: le_trans [OF _ le_SucI])

definition Clean :: "string \<Rightarrow> string" where
  "Clean path =
     (if path = [] then ''.''
      else
        (let rooted = (hd path = CHR ''/'');
             out = (if rooted then clean_loop True (tl path) ''/'' 1
                    else clean_loop False path [] 0)
         in if out = [] then ''.'' else out))"

fun join_buf :: "string \<Rightarrow> string list \<Rightarrow> string" where
  "join_buf buf [] = buf"
| "join_buf buf (e # es) =
     join_buf (if buf \<noteq> [] \<or> e \<noteq> []
               then (if buf \<noteq> [] then buf @ ''/'' else buf) @ e
               else buf) es"

definition Join :: "string list \<Rightarrow> string" where
  "Join elem = (if sum_list (map length elem) = 0 then [] else Clean (join_buf [] elem))"

text \<open>\<^verbatim>\<open>fmt\<close>'s verb \<^verbatim>\<open>%d\<close> on an integer: decimal digits, a minus sign when negative.\<close>

fun utoa :: "nat \<Rightarrow> string" where
  "utoa n = (if n < 10 then [''0123456789'' ! n] else utoa (n div 10) @ [''0123456789'' ! (n mod 10)])"

declare utoa.simps [simp del]

definition itoa :: "int \<Rightarrow> string" where
  "itoa i = (if i < 0 then CHR ''-'' # utoa (nat (- i)) else utoa (nat i))"

section \<open>The store and its keys\<close>

text \<open>
  \<^verbatim>\<open>type Store struct\<close>. The fields \<^verbatim>\<open>s3\<close>, \<^verbatim>\<open>uploader\<close> and \<^verbatim>\<open>downloader\<close> are the
  backend client, which is a parameter of every operation below; \<open>wg\<close> is the counter of
  the \<^verbatim>\<open>sync.WaitGroup\<close>.
\<close>

record Store =
  ConfirmCreate :: bool
  ConfirmationTimeout :: Duration
  ConfirmationRequestRate :: Duration
  bucket :: string
  prefix :: string
  wg :: int

definition New :: "string \<Rightarrow> string \<Rightarrow> Store \<times> error option" where
  "New bucket_name keyprefix =
     (\<lparr> ConfirmCreate = True,
        ConfirmationTimeout = 1000000000 * 5,
        ConfirmationRequestRate = 1000000 * 500,
        bucket = bucket_name,
        prefix = keyprefix,
        wg = 0 \<rparr>, None)"

text \<open>
  The first statements of \<^verbatim>\<open>Create\<close> and of \<^verbatim>\<open>Open\<close> (the same three lines in both, and in
  both source files): the key is the identifier's string, joined to the prefix when the
  prefix is not empty.
\<close>

definition object_key :: "Store \<Rightarrow> ID \<Rightarrow> string" where
  "object_key s ident =
     (let key = String ident
      in if length (prefix s) > 0 then Join [prefix s, key] else key)"

text \<open>The first statement of \<^verbatim>\<open>Remove\<close>: the join is taken whatever the prefix is.\<close>

definition Remove_path :: "Store \<Rightarrow> ID \<Rightarrow> string" where
  "Remove_path s ident = Join [prefix s, String ident]"

section \<open>The backend client\<close>

text \<open>
  The S3 client (\<^verbatim>\<open>s3iface.S3API\<close> with the \<^verbatim>\<open>s3manager\<close> uploader and downloader built on
  it) is not part of the package. It is a parameter: four operations over a backend state
  \<open>'b\<close> that each answer and give the next backend state. An error is given by the text of
  its \<^verbatim>\<open>Error()\<close>, \<open>None\<close> is \<^verbatim>\<open>nil\<close>. \<open>Upload\<close> receives the whole body that was read from
  its \<^verbatim>\<open>Body\<close> reader; \<open>Download\<close> answers the bytes written to the buffer, the count \<open>n\<close>
  and the error.
\<close>

record 'b S3API =
  HeadObject :: "'b \<Rightarrow> string \<Rightarrow> string \<Rightarrow> string option \<times> 'b"
  Upload :: "'b \<Rightarrow> string \<Rightarrow> string \<Rightarrow> bytes \<Rightarrow> string option \<times> 'b"
  Download :: "'b \<Rightarrow> string \<Rightarrow> string \<Rightarrow> (bytes \<times> int \<times> string option) \<times> 'b"
  DeleteObject :: "'b \<Rightarrow> string \<Rightarrow> string \<Rightarrow> string option \<times> 'b"

text \<open>
  The calls issued to the backend are logged, each with its bucket and key. An upload takes
  time and is logged twice, each time with the pipe whose read end is its \<^verbatim>\<open>Body\<close>:
  \<open>UploadCall\<close> when \<^verbatim>\<open>s.uploader.Upload\<close> is called, \<open>UploadSend\<close> when the uploader has read
  the body to its end and the backend receives it.
\<close>

datatype call =
    HeadObjectCall string string
  | UploadCall string string nat
  | UploadSend string string nat
  | DownloadCall string string
  | DeleteObjectCall string string

section \<open>Pipes\<close>

text \<open>
  \<^verbatim>\<open>io.Pipe()\<close> is a synchronous pipe. \<open>offered\<close> is what is left of the buffer of the
  \<^verbatim>\<open>Write\<close> that is blocked in the pipe, \<open>taken\<close> is every byte readers have received so
  far, \<open>draining\<close> says that a reader (the body reader of a running \<^verbatim>\<open>Upload\<close>) takes
  whatever is written, \<open>werr\<close> and \<open>rerr\<close> are the errors stored by closing the write end
  and the read end; each keeps the first error stored.
\<close>

record pipe =
  offered :: bytes
  taken :: bytes
  draining :: bool
  werr :: "error option"
  rerr :: "error option"

definition new_pipe :: pipe where
  "new_pipe = \<lparr> offered = [], taken = [], draining = False, werr = None, rerr = None \<rparr>"

definition closeWrite :: "pipe \<Rightarrow> error option \<Rightarrow> pipe" where
  "closeWrite p err =
     (if werr p = None
      then p\<lparr> werr := Some (case err of None \<Rightarrow> EOF | Some e \<Rightarrow> e) \<rparr>
      else p)"

definition closeRead :: "pipe \<Rightarrow> error option \<Rightarrow> pipe" where
  "closeRead p err =
     (if rerr p = None
      then p\<lparr> rerr := Some (case err of None \<Rightarrow> ErrClosedPipe | Some e \<Rightarrow> e) \<rparr>
      else p)"

definition pipe_done :: "pipe \<Rightarrow> bool" where
  "pipe_done p = (werr p \<noteq> None \<or> rerr p \<noteq> None)"

definition writeCloseError :: "pipe \<Rightarrow> error" where
  "writeCloseError p =
     (case (werr p, rerr p) of (None, Some e) \<Rightarrow> e | _ \<Rightarrow> ErrClosedPipe)"

definition readCloseError :: "pipe \<Rightarrow> error" where
  "readCloseError p =
     (case (rerr p, werr p) of (None, Some e) \<Rightarrow> e | _ \<Rightarrow> ErrClosedPipe)"

section \<open>Handles, goroutines and the state of the program\<close>

text \<open>
  \<^verbatim>\<open>type s3WriteCloser struct\<close> of the source file with the confirmation settings. The field
  \<^verbatim>\<open>id\<close> is named \<open>c4id\<close>; \<open>w\<close> is the index of the pipe whose write end the handle holds;
  \<open>headInput\<close> is the bucket and key of the prepared \<^verbatim>\<open>HeadObjectInput\<close>; the field \<^verbatim>\<open>s3\<close>
  is the backend client, a parameter of the operations.
\<close>

record s3WriteCloser =
  confirmCreate :: bool
  confirmationTimeout :: Duration
  confirmationRequestRate :: Duration
  c4id :: ID
  w :: nat
  closed :: bool
  headInput :: "string \<times> string"

text \<open>
  A goroutine has been spawned, or it is running, or it has exited. \<open>Leaving\<close> is a state of
  the older source file only: the goroutine of its \<^verbatim>\<open>Open\<close> is in its deferred function,
  between the two statements of it.
\<close>

datatype gstate = Spawned | Running | Leaving | Exited

text \<open>
  The goroutine of \<^verbatim>\<open>Create\<close>: it calls \<^verbatim>\<open>Upload\<close> with the read end \<open>ur\<close> as body. It is
  \<open>Running\<close> while the call is in progress.
\<close>

record upload =
  ubucket :: string
  ukey :: string
  ur :: nat
  ustate :: gstate

text \<open>
  The goroutine of \<^verbatim>\<open>Open\<close>: it copies the downloaded buffer \<open>cbuf\<close> into the write end
  \<open>cw\<close>. It is \<open>Running\<close> while \<^verbatim>\<open>io.Copy\<close> is in progress.
\<close>

record copy =
  cw :: nat
  cbuf :: bytes
  cstate :: gstate

text \<open>
  One confirmation, started by a \<^verbatim>\<open>Close\<close> that reached its \<^verbatim>\<open>select\<close>: the channels
  \<^verbatim>\<open>headok\<close> and \<^verbatim>\<open>done\<close> (\<open>True\<close> once closed), the polling goroutine (\<open>Spawned\<close> before its
  first \<^verbatim>\<open>HeadObject\<close>, \<open>Running\<close> while it waits between two polls), and the case on which
  the \<^verbatim>\<open>select\<close> of \<^verbatim>\<open>Close\<close> was woken: the first of its two channels to fire.
\<close>

datatype select_case = TimerCase | HeadokCase

record confirmation =
  headok :: bool
  done_ch :: bool
  poller :: gstate
  woken :: "select_case option"

text \<open>
  The state of the program: the state of the backend and the log of the calls made to it,
  the store, the pipes and the write handles made so far (a handle or a pipe is named by
  its index), the confirmation of each handle whose \<^verbatim>\<open>Close\<close> reached its \<^verbatim>\<open>select\<close>, and the
  goroutines spawned by \<^verbatim>\<open>Create\<close> and by \<^verbatim>\<open>Open\<close>. \<open>boot\<close> is the state after \<^verbatim>\<open>New\<close>.
\<close>

record 'b world =
  s3 :: 'b
  calls :: "call list"
  store :: Store
  pipes :: "pipe list"
  writers :: "s3WriteCloser list"
  confirmations :: "nat \<Rightarrow> confirmation option"
  uploads :: "upload list"
  copies :: "copy list"

definition boot :: "'b \<Rightarrow> string \<Rightarrow> string \<Rightarrow> 'b world" where
  "boot b bucket_name keyprefix =
     \<lparr> s3 = b, calls = [], store = fst (New bucket_name keyprefix), pipes = [],
       writers = [], confirmations = (\<lambda>h. None), uploads = [], copies = [] \<rparr>"

definition wg_Add :: "int \<Rightarrow> 'b world \<Rightarrow> 'b world" where
  "wg_Add n W = W\<lparr> store := (store W)\<lparr> wg := wg (store W) + n \<rparr> \<rparr>"

definition set_pipe :: "nat \<Rightarrow> pipe \<Rightarrow> 'b world \<Rightarrow> 'b world" where
  "set_pipe r p W = W\<lparr> pipes := (pipes W)[r := p] \<rparr>"

definition log_call :: "call \<Rightarrow> 'b \<Rightarrow> 'b world \<Rightarrow> 'b world" where
  "log_call c b W = W\<lparr> s3 := b, calls := calls W @ [c] \<rparr>"

section \<open>The operations of the store\<close>

text \<open>
  \<^verbatim>\<open>func (s *Store) Create(id c4.ID) (io.WriteCloser, error)\<close>. The result is the error or
  the index of the new handle. The goroutine is registered with \<^verbatim>\<open>s.wg.Add(1)\<close> and spawned;
  it runs in the steps \<open>Upload_begin\<close>, \<open>Upload_end\<close> and \<open>Upload_abort\<close> below.
\<close>

definition Create :: "'b S3API \<Rightarrow> ID \<Rightarrow> 'b world \<Rightarrow> (error + nat) \<times> 'b world" where
  "Create api ident W =
     (let s = store W;
          key = object_key s ident;
          (err, b) = HeadObject api (s3 W) (bucket s) key;
          W1 = log_call (HeadObjectCall (bucket s) key) b W
      in if err = None then (Inl (PathError ''create'' key ErrExist), W1)
         else
           (let r = length (pipes W1);
                out = \<lparr> confirmCreate = ConfirmCreate s,
                        confirmationTimeout = ConfirmationTimeout s,
                        confirmationRequestRate = ConfirmationRequestRate s,
                        c4id = ident, w = r, closed = False,
                        headInput = (bucket s, key) \<rparr>;
                W2 = W1\<lparr> pipes := pipes W1 @ [new_pipe], writers := writers W1 @ [out] \<rparr>;
                W3 = wg_Add 1 W2
            in (Inr (length (writers W1)),
                W3\<lparr> uploads := uploads W3 @
                       [\<lparr> ubucket = bucket s, ukey = key, ur = r, ustate = Spawned \<rparr>] \<rparr>)))"

text \<open>
  The goroutine of \<^verbatim>\<open>Create\<close>. \<open>Upload_begin\<close>: the goroutine is scheduled and calls
  \<^verbatim>\<open>s.uploader.Upload\<close>, which from then on reads its body from the pipe; the call is
  logged. \<open>Upload_end\<close>: the body has been read to its end (the write end is closed), the
  backend receives the bytes read, which is logged, and the call returns what the backend
  answers; on an error the read end is closed with it; the deferred \<^verbatim>\<open>s.wg.Done()\<close> runs.
  \<open>Upload_abort\<close>: the call returns the error \<open>e\<close> at a moment the environment chooses,
  and the backend receives nothing.
\<close>

definition Upload_begin :: "nat \<Rightarrow> 'b world \<Rightarrow> 'b world option" where
  "Upload_begin t W =
     (if t < length (uploads W) \<and> ustate (uploads W ! t) = Spawned
         \<and> ur (uploads W ! t) < length (pipes W) then
        (let u = uploads W ! t;
             W1 = W\<lparr> calls := calls W @ [UploadCall (ubucket u) (ukey u) (ur u)],
                     uploads := (uploads W)[t := u\<lparr> ustate := Running \<rparr>] \<rparr>
         in Some (set_pipe (ur u) ((pipes W ! ur u)\<lparr> draining := True \<rparr>) W1))
      else None)"

definition Upload_exit :: "nat \<Rightarrow> string option \<Rightarrow> 'b world \<Rightarrow> 'b world" where
  "Upload_exit t err W =
     (let u = uploads W ! t;
          p = (pipes W ! ur u)\<lparr> draining := False \<rparr>;
          W1 = set_pipe (ur u) (case err of None \<Rightarrow> p | Some e \<Rightarrow> closeRead p (Some (AwsErr e))) W
      in wg_Add (- 1) (W1\<lparr> uploads := (uploads W1)[t := u\<lparr> ustate := Exited \<rparr>] \<rparr>))"

definition Upload_end :: "'b S3API \<Rightarrow> nat \<Rightarrow> 'b world \<Rightarrow> 'b world option" where
  "Upload_end api t W =
     (if t < length (uploads W) \<and> ustate (uploads W ! t) = Running
         \<and> ur (uploads W ! t) < length (pipes W)
         \<and> werr (pipes W ! ur (uploads W ! t)) = Some EOF then
        (let u = uploads W ! t;
             (err, b) = Upload api (s3 W) (ubucket u) (ukey u) (taken (pipes W ! ur u))
         in Some (Upload_exit t err (log_call (UploadSend (ubucket u) (ukey u) (ur u)) b W)))
      else None)"

definition Upload_abort :: "nat \<Rightarrow> string \<Rightarrow> 'b world \<Rightarrow> 'b world option" where
  "Upload_abort t e W =
     (if t < length (uploads W) \<and> ustate (uploads W ! t) = Running
         \<and> ur (uploads W ! t) < length (pipes W) then
        Some (Upload_exit t (Some e) W)
      else None)"

text \<open>
  \<^verbatim>\<open>func (w *s3WriteCloser) Write(b []byte) (int, error)\<close> forwards to the write end of the
  pipe. On a closed pipe it returns the close error. Otherwise it returns once the running
  \<^verbatim>\<open>Upload\<close> has read all of \<open>b\<close>, and blocks (\<open>None\<close>) while no reader drains the pipe. A
  write is taken whole: one that the closing of the read end cuts short, which returns the
  count of the bytes taken so far with the error, is not among the steps.
\<close>

definition Write :: "nat \<Rightarrow> bytes \<Rightarrow> 'b world \<Rightarrow> ((nat \<times> error option) \<times> 'b world) option" where
  "Write h b W =
     (if h < length (writers W) \<and> w (writers W ! h) < length (pipes W) then
        (let r = w (writers W ! h); p = pipes W ! r
         in if pipe_done p then Some ((0, Some (writeCloseError p)), W)
            else if draining p then
              Some ((length b, None), set_pipe r (p\<lparr> taken := taken p @ b \<rparr>) W)
            else None)
      else None)"

text \<open>
  \<^verbatim>\<open>func (w *s3WriteCloser) Close() error\<close>, up to its \<^verbatim>\<open>select\<close>. The write end is an
  \<^verbatim>\<open>io.WriteCloser\<close>; \<open>perr\<close> is what its \<^verbatim>\<open>Close\<close> returns (an \<^verbatim>\<open>io.PipeWriter\<close> always
  returns \<^verbatim>\<open>nil\<close> and closes the pipe with \<^verbatim>\<open>io.EOF\<close>). The call either returns, or it has
  made the two channels and spawned the polling goroutine and is parked in the \<^verbatim>\<open>select\<close>.
\<close>

datatype close_state = Returned "error option" | InSelect

definition Close_call :: "nat \<Rightarrow> error option \<Rightarrow> 'b world \<Rightarrow> (close_state \<times> 'b world) option" where
  "Close_call h perr W =
     (if h < length (writers W) \<and> w (writers W ! h) < length (pipes W) then
        (let wc = writers W ! h
         in if closed wc then Some (Returned (Some (Errorf ''already closed'')), W)
            else
              (let W1 = W\<lparr> writers := (writers W)[h := wc\<lparr> closed := True \<rparr>] \<rparr>
               in if perr \<noteq> None then Some (Returned perr, W1)
                  else
                    (let W2 = set_pipe (w wc) (closeWrite (pipes W1 ! w wc) None) W1
                     in if \<not> confirmCreate wc then Some (Returned None, W2)
                        else Some (InSelect,
                          W2\<lparr> confirmations := (confirmations W2)(h \<mapsto>
                            \<lparr> headok = False, done_ch = False, poller = Spawned,
                              woken = None \<rparr>) \<rparr>))))
      else None)"

text \<open>
  The polling goroutine of \<^verbatim>\<open>Close\<close>, one iteration of its loop: a \<^verbatim>\<open>HeadObject\<close>; on
  success the goroutine returns and its deferred \<^verbatim>\<open>close(headok)\<close> wakes the \<^verbatim>\<open>select\<close> of
  \<^verbatim>\<open>Close\<close> if nothing woke it before; on failure it returns if \<^verbatim>\<open>done\<close> is closed and
  waits for the next poll otherwise.
\<close>

definition Close_poll :: "'b S3API \<Rightarrow> nat \<Rightarrow> 'b world \<Rightarrow> 'b world option" where
  "Close_poll api h W =
     (case confirmations W h of
        None \<Rightarrow> None
      | Some c \<Rightarrow>
          if h < length (writers W) \<and> poller c \<noteq> Exited then
            (let (bk, key) = headInput (writers W ! h);
                 (err, b) = HeadObject api (s3 W) bk key;
                 W1 = log_call (HeadObjectCall bk key) b W;
                 c1 = (if err = None then
                         c\<lparr> headok := True, poller := Exited,
                            woken := (if woken c = None then Some HeadokCase else woken c) \<rparr>
                       else if done_ch c then c\<lparr> headok := True, poller := Exited \<rparr>
                       else c\<lparr> poller := Running \<rparr>)
             in Some (W1\<lparr> confirmations := (confirmations W1)(h \<mapsto> c1) \<rparr>))
          else None)"

text \<open>The channel of \<^verbatim>\<open>time.After(w.confirmationTimeout)\<close> fires.\<close>

definition Close_timer :: "nat \<Rightarrow> 'b world \<Rightarrow> 'b world option" where
  "Close_timer h W =
     (case confirmations W h of
        None \<Rightarrow> None
      | Some c \<Rightarrow>
          Some (W\<lparr> confirmations := (confirmations W)(h \<mapsto>
            c\<lparr> woken := (if woken c = None then Some TimerCase else woken c) \<rparr>) \<rparr>))"

text \<open>The \<^verbatim>\<open>select\<close> of \<^verbatim>\<open>Close\<close> and the return after it, for the case that fired.\<close>

definition Close_select :: "s3WriteCloser \<Rightarrow> select_case \<Rightarrow> error option" where
  "Close_select wc sc =
     (case sc of
        TimerCase \<Rightarrow> Some (ErrConfirmationTimeout (c4id wc) (confirmationTimeout wc))
      | HeadokCase \<Rightarrow> None)"

text \<open>
  \<^verbatim>\<open>Close\<close> returns from its \<^verbatim>\<open>select\<close>: it is blocked while no case has fired; the
  deferred \<^verbatim>\<open>close(done)\<close> ends a polling goroutine that waits between two polls.
\<close>

definition Close_return :: "nat \<Rightarrow> 'b world \<Rightarrow> (error option \<times> 'b world) option" where
  "Close_return h W =
     (case confirmations W h of
        None \<Rightarrow> None
      | Some c \<Rightarrow>
          if h < length (writers W) \<and> \<not> done_ch c then
            (case woken c of
               None \<Rightarrow> None
             | Some sc \<Rightarrow>
                 (let c1 = c\<lparr> done_ch := True \<rparr>;
                      c2 = (if poller c = Running then c1\<lparr> headok := True, poller := Exited \<rparr>
                            else c1)
                  in Some (Close_select (writers W ! h) sc,
                           W\<lparr> confirmations := (confirmations W)(h \<mapsto> c2) \<rparr>)))
          else None)"

text \<open>
  \<^verbatim>\<open>func (s *Store) Open(id c4.ID) (io.ReadCloser, error)\<close>. The read handle is the index of
  the new pipe (\<^verbatim>\<open>ioutil.NopCloser(r)\<close> reads from \<^verbatim>\<open>r\<close>).
\<close>

definition Open :: "'b S3API \<Rightarrow> ID \<Rightarrow> 'b world \<Rightarrow> (error + nat) \<times> 'b world" where
  "Open api ident W =
     (let s = store W;
          key = object_key s ident;
          ((buff, n, err), b) = Download api (s3 W) (bucket s) key;
          W1 = log_call (DownloadCall (bucket s) key) b W
      in case err of
           Some e \<Rightarrow> (Inl (Errorf (key @ '' '' @ e @ '' (n == '' @ itoa n @ '')'')), W1)
         | None \<Rightarrow>
             (let r = length (pipes W1);
                  W2 = wg_Add 1 (W1\<lparr> pipes := pipes W1 @ [new_pipe] \<rparr>)
              in (Inr r,
                  W2\<lparr> copies := copies W2 @ [\<lparr> cw = r, cbuf = buff, cstate = Spawned \<rparr>] \<rparr>)))"

text \<open>
  The goroutine of \<^verbatim>\<open>Open\<close>. \<open>Copy_begin\<close>: \<^verbatim>\<open>io.Copy\<close> from a \<^verbatim>\<open>bytes.Reader\<close> writes all
  remaining bytes in one \<^verbatim>\<open>Write\<close>, and none when the buffer is empty. \<open>Copy_end\<close>: the
  \<^verbatim>\<open>Write\<close> has returned (every byte taken, or the pipe closed); a write error closes the
  read end with it; the deferred function closes the write end and then calls
  \<^verbatim>\<open>s.wg.Done()\<close>.
\<close>

definition Copy_begin :: "nat \<Rightarrow> 'b world \<Rightarrow> 'b world option" where
  "Copy_begin k W =
     (if k < length (copies W) \<and> cstate (copies W ! k) = Spawned
         \<and> cw (copies W ! k) < length (pipes W) then
        (let c = copies W ! k; p = pipes W ! cw c;
             W1 = W\<lparr> copies := (copies W)[k := c\<lparr> cstate := Running \<rparr>] \<rparr>
         in Some (set_pipe (cw c) (p\<lparr> offered := cbuf c \<rparr>) W1))
      else None)"

definition Copy_end :: "nat \<Rightarrow> 'b world \<Rightarrow> 'b world option" where
  "Copy_end k W =
     (if k < length (copies W) \<and> cstate (copies W ! k) = Running
         \<and> cw (copies W ! k) < length (pipes W)
         \<and> (offered (pipes W ! cw (copies W ! k)) = [] \<or> pipe_done (pipes W ! cw (copies W ! k)))
      then
        (let c = copies W ! k; p = pipes W ! cw c;
             p1 = (if offered p \<noteq> [] then closeRead p (Some (writeCloseError p)) else p);
             p2 = closeWrite (p1\<lparr> offered := [] \<rparr>) None;
             W1 = set_pipe (cw c) p2 W
         in Some (wg_Add (- 1) (W1\<lparr> copies := (copies W1)[k := c\<lparr> cstate := Exited \<rparr>] \<rparr>)))
      else None)"

text \<open>
  \<^verbatim>\<open>Read\<close> on the handle of \<^verbatim>\<open>Open\<close>, with a buffer of \<open>n\<close> bytes: the close error on a
  closed pipe, else the next bytes of the blocked \<^verbatim>\<open>Write\<close>, as many as fit; it blocks
  while there is neither.
\<close>

definition Read :: "nat \<Rightarrow> nat \<Rightarrow> 'b world \<Rightarrow> ((bytes \<times> error option) \<times> 'b world) option" where
  "Read r n W =
     (if r < length (pipes W) \<and> r \<in> set (map cw (copies W)) then
        (let p = pipes W ! r
         in if pipe_done p then Some (([], Some (readCloseError p)), W)
            else if offered p \<noteq> [] then
              Some ((take n (offered p), None),
                    set_pipe r (p\<lparr> offered := drop n (offered p),
                                   taken := taken p @ take n (offered p) \<rparr>) W)
            else None)
      else None)"

text \<open>\<^verbatim>\<open>func (s *Store) Remove(id c4.ID) error\<close>.\<close>

definition Remove :: "'b S3API \<Rightarrow> ID \<Rightarrow> 'b world \<Rightarrow> error option \<times> 'b world" where
  "Remove api ident W =
     (let s = store W;
          path = Remove_path s ident;
          (err, b) = DeleteObject api (s3 W) (bucket s) path
      in (map_option AwsErr err, log_call (DeleteObjectCall (bucket s) path) b W))"

text \<open>
  \<^verbatim>\<open>func (s *Store) Close() error\<close>: \<^verbatim>\<open>s.wg.Wait()\<close> blocks while the counter is not zero.
\<close>

definition Store_Close :: "'b world \<Rightarrow> (error option \<times> 'b world) option" where
  "Store_Close W = (if wg (store W) = 0 then Some (None, W) else None)"

text \<open>A caller assigns the three exported fields of the store.\<close>

definition Configure :: "bool \<Rightarrow> Duration \<Rightarrow> Duration \<Rightarrow> 'b world \<Rightarrow> 'b world" where
  "Configure cc ct cr W =
     W\<lparr> store := (store W)\<lparr> ConfirmCreate := cc, ConfirmationTimeout := ct,
                            ConfirmationRequestRate := cr \<rparr> \<rparr>"

section \<open>Executions\<close>

text \<open>
  An execution is a sequence of actions: the calls of the package's operations and the
  steps of its goroutines, in the order in which they take effect. \<open>exec\<close> is \<open>None\<close> when
  the action cannot take place in the state (a blocked call, a goroutine that is not at
  that step, a handle that does not exist).
\<close>

datatype action =
    ACreate ID
  | AWrite nat bytes
  | AClose nat "error option"
  | ACloseTimer nat
  | AClosePoll nat
  | ACloseReturn nat
  | AUploadBegin nat
  | AUploadEnd nat
  | AUploadAbort nat string
  | AOpen ID
  | ACopyBegin nat
  | ACopyEnd nat
  | ARead nat nat
  | ARemove ID
  | AStoreClose
  | AConfigure bool Duration Duration

datatype result =
    Handle nat
  | Failed error
  | Ok
  | Wrote nat "error option"
  | Got bytes "error option"
  | Parked
  | Step

definition returned :: "error option \<Rightarrow> result" where
  "returned err = (case err of None \<Rightarrow> Ok | Some e \<Rightarrow> Failed e)"

definition opened :: "error + nat \<Rightarrow> result" where
  "opened x = (case x of Inl e \<Rightarrow> Failed e | Inr h \<Rightarrow> Handle h)"

fun exec :: "'b S3API \<Rightarrow> action \<Rightarrow> 'b world \<Rightarrow> (result \<times> 'b world) option" where
  "exec api (ACreate i) W = (let (x, W') = Create api i W in Some (opened x, W'))"
| "exec api (AWrite h b) W = map_option (\<lambda>((n, err), W'). (Wrote n err, W')) (Write h b W)"
| "exec api (AClose h perr) W =
     map_option (\<lambda>(c, W'). (case c of Returned err \<Rightarrow> returned err | InSelect \<Rightarrow> Parked, W'))
       (Close_call h perr W)"
| "exec api (ACloseTimer h) W = map_option (Pair Step) (Close_timer h W)"
| "exec api (AClosePoll h) W = map_option (Pair Step) (Close_poll api h W)"
| "exec api (ACloseReturn h) W = map_option (\<lambda>(err, W'). (returned err, W')) (Close_return h W)"
| "exec api (AUploadBegin t) W = map_option (Pair Step) (Upload_begin t W)"
| "exec api (AUploadEnd t) W = map_option (Pair Step) (Upload_end api t W)"
| "exec api (AUploadAbort t e) W = map_option (Pair Step) (Upload_abort t e W)"
| "exec api (AOpen i) W = (let (x, W') = Open api i W in Some (opened x, W'))"
| "exec api (ACopyBegin k) W = map_option (Pair Step) (Copy_begin k W)"
| "exec api (ACopyEnd k) W = map_option (Pair Step) (Copy_end k W)"
| "exec api (ARead r n) W = map_option (\<lambda>((d, err), W'). (Got d err, W')) (Read r n W)"
| "exec api (ARemove i) W = (let (err, W') = Remove api i W in Some (returned err, W'))"
| "exec api AStoreClose W = map_option (\<lambda>(err, W'). (returned err, W')) (Store_Close W)"
| "exec api (AConfigure cc ct cr) W = Some (Ok, Configure cc ct cr W)"

fun run :: "'b S3API \<Rightarrow> action list \<Rightarrow> 'b world \<Rightarrow> (result list \<times> 'b world) option" where
  "run api [] W = Some ([], W)"
| "run api (a # as) W =
     (case exec api a W of
        None \<Rightarrow> None
      | Some (r, W') \<Rightarrow>
          (case run api as W' of
             None \<Rightarrow> None
           | Some (rs, W'') \<Rightarrow> Some (r # rs, W'')))"

section \<open>The older source file\<close>

text \<open>
  The file \<^verbatim>\<open>s3c4.go\<close> holds an older text of the package: its \<^verbatim>\<open>Store\<close> and its
  \<^verbatim>\<open>s3WriteCloser\<close> have no confirmation settings. \<^verbatim>\<open>Create\<close> and its goroutine, \<^verbatim>\<open>Open\<close> up
  to its goroutine, \<^verbatim>\<open>Remove\<close> and \<^verbatim>\<open>Close\<close> of the store compute and return what the
  definitions above do. Its \<^verbatim>\<open>Close\<close> of a handle differs: it always confirms, with a timer
  of five seconds, and both cases of its \<^verbatim>\<open>select\<close> are followed by \<^verbatim>\<open>return nil\<close>. \<open>perr\<close> is
  the result of closing the write end and \<open>first\<close> the case of the \<^verbatim>\<open>select\<close> that fires
  first, as above.
\<close>

record s3WriteCloser_s3c4_go =
  w0 :: nat
  closed0 :: bool
  headInput0 :: "string \<times> string"

definition Close_s3c4_go ::
  "s3WriteCloser_s3c4_go \<Rightarrow> error option \<Rightarrow> select_case \<Rightarrow> error option \<times> s3WriteCloser_s3c4_go"
where
  "Close_s3c4_go wc perr first =
     (if closed0 wc then (Some (Errorf ''already closed''), wc)
      else
        (let wc1 = wc\<lparr> closed0 := True \<rparr>
         in if perr \<noteq> None then (perr, wc1)
            else (case first of TimerCase \<Rightarrow> (None, wc1) | HeadokCase \<Rightarrow> (None, wc1))))"

text \<open>
  The goroutine of \<^verbatim>\<open>Open\<close> in \<^verbatim>\<open>s3c4.go\<close> differs in its deferred function, which is
  \<^verbatim>\<open>s.wg.Done()\<close> followed by \<^verbatim>\<open>w.Close()\<close>. \<open>Copy_Done_s3c4_go\<close>: \<^verbatim>\<open>io.Copy\<close> has returned
  (every byte taken, or the pipe closed; a write error closes the read end with it) and
  the deferred function calls \<^verbatim>\<open>s.wg.Done()\<close>. \<open>Copy_Close_s3c4_go\<close>: it closes the write
  end, and the goroutine exits.
\<close>

definition Copy_Done_s3c4_go :: "nat \<Rightarrow> 'b world \<Rightarrow> 'b world option" where
  "Copy_Done_s3c4_go k W =
     (if k < length (copies W) \<and> cstate (copies W ! k) = Running
         \<and> cw (copies W ! k) < length (pipes W)
         \<and> (offered (pipes W ! cw (copies W ! k)) = [] \<or> pipe_done (pipes W ! cw (copies W ! k)))
      then
        (let c = copies W ! k; p = pipes W ! cw c;
             p1 = (if offered p \<noteq> [] then closeRead p (Some (writeCloseError p)) else p);
             W1 = set_pipe (cw c) (p1\<lparr> offered := [] \<rparr>) W
         in Some (wg_Add (- 1) (W1\<lparr> copies := (copies W1)[k := c\<lparr> cstate := Leaving \<rparr>] \<rparr>)))
      else None)"

definition Copy_Close_s3c4_go :: "nat \<Rightarrow> 'b world \<Rightarrow> 'b world option" where
  "Copy_Close_s3c4_go k W =
     (if k < length (copies W) \<and> cstate (copies W ! k) = Leaving
         \<and> cw (copies W ! k) < length (pipes W)
      then
        (let c = copies W ! k;
             W1 = set_pipe (cw c) (closeWrite (pipes W ! cw c) None) W
         in Some (W1\<lparr> copies := (copies W1)[k := c\<lparr> cstate := Exited \<rparr>] \<rparr>))
      else None)"

section \<open>A backend that keeps objects in memory\<close>

text \<open>
  A backend for running the operations on concrete inputs: a map from bucket and key to the
  stored bytes, in which every operation takes effect at once.
\<close>

definition mem_api :: "(string \<times> string \<Rightarrow> bytes option) S3API" where
  "mem_api =
     \<lparr> HeadObject = (\<lambda>b bk k. (if b (bk, k) = None then Some ''NotFound'' else None, b)),
       Upload = (\<lambda>b bk k body. (None, b((bk, k) \<mapsto> body))),
       Download = (\<lambda>b bk k.
          (case b (bk, k) of
             None \<Rightarrow> (([], 0, Some ''NoSuchKey''), b)
           | Some d \<Rightarrow> ((d, int (length d), None), b))),
       DeleteObject = (\<lambda>b bk k. (None, b((bk, k) := None))) \<rparr>"

section \<open>Predicates on states\<close>

text \<open>
  The goroutines of \<^verbatim>\<open>Create\<close> and \<^verbatim>\<open>Open\<close> that have not exited, counted.
\<close>

definition live :: "'b world \<Rightarrow> nat" where
  "live W = length (filter (\<lambda>u. ustate u \<noteq> Exited) (uploads W)) +
            length (filter (\<lambda>c. cstate c \<noteq> Exited) (copies W))"

text \<open>
  Two facts that hold in every state the program reaches: a handle's pipe exists, and a
  confirmation belongs to a handle that is closed and was created with confirmation on.
\<close>

definition handles_ok :: "'b world \<Rightarrow> bool" where
  "handles_ok W = (\<forall>h < length (writers W). w (writers W ! h) < length (pipes W))"

definition confirmations_ok :: "'b world \<Rightarrow> bool" where
  "confirmations_ok W =
     (\<forall>h c. confirmations W h = Some c \<longrightarrow>
        h < length (writers W) \<and> closed (writers W ! h) \<and> confirmCreate (writers W ! h))"

section \<open>Counting calls and goroutines\<close>

fun is_Create :: "action \<Rightarrow> bool" where
  "is_Create (ACreate i) = True"
| "is_Create a = False"

fun is_Open :: "action \<Rightarrow> bool" where
  "is_Open (AOpen i) = True"
| "is_Open a = False"

fun is_UploadBegin :: "action \<Rightarrow> bool" where
  "is_UploadBegin (AUploadBegin t) = True"
| "is_UploadBegin a = False"

fun is_Handle :: "result \<Rightarrow> bool" where
  "is_Handle (Handle h) = True"
| "is_Handle r = False"

fun is_UploadCall :: "call \<Rightarrow> bool" where
  "is_UploadCall (UploadCall bk k r) = True"
| "is_UploadCall c = False"

text \<open>The two log entries of the upload whose body is the read end of the pipe \<open>r\<close>.\<close>

fun is_UploadCall_of :: "nat \<Rightarrow> call \<Rightarrow> bool" where
  "is_UploadCall_of r (UploadCall bk k r') = (r' = r)"
| "is_UploadCall_of r c = False"

fun is_UploadSend_of :: "nat \<Rightarrow> call \<Rightarrow> bool" where
  "is_UploadSend_of r (UploadSend bk k r') = (r' = r)"
| "is_UploadSend_of r c = False"

fun is_DownloadCall :: "call \<Rightarrow> bool" where
  "is_DownloadCall (DownloadCall bk k) = True"
| "is_DownloadCall c = False"

definition transfers :: "call list \<Rightarrow> nat" where
  "transfers cs = length (filter (\<lambda>c. is_UploadCall c \<or> is_DownloadCall c) cs)"

text \<open>
  The calls of \<^verbatim>\<open>Create\<close>, and of \<^verbatim>\<open>Open\<close>, that returned a handle in an execution with the
  results \<open>rs\<close>.
\<close>

definition n_created :: "action list \<Rightarrow> result list \<Rightarrow> nat" where
  "n_created acts rs = length (filter (\<lambda>(a, r). is_Create a \<and> is_Handle r) (zip acts rs))"

definition n_opened :: "action list \<Rightarrow> result list \<Rightarrow> nat" where
  "n_opened acts rs = length (filter (\<lambda>(a, r). is_Open a \<and> is_Handle r) (zip acts rs))"

text \<open>
  The goroutine of the \<open>t\<close>-th handle is the \<open>t\<close>-th upload: it reads the handle's pipe and
  uploads to the handle's bucket and key.
\<close>

definition uploads_ok :: "'b world \<Rightarrow> bool" where
  "uploads_ok W =
     (length (uploads W) = length (writers W) \<and>
      (\<forall>t < length (uploads W).
         ur (uploads W ! t) = w (writers W ! t) \<and>
         (ubucket (uploads W ! t), ukey (uploads W ! t)) = headInput (writers W ! t)))"

text \<open>
  The log of the uploads: the pipe of each goroutine of \<^verbatim>\<open>Create\<close> exists and is the body of
  no other upload; the log holds no \<open>UploadCall\<close> for it before the goroutine has started and
  one, with its bucket and key, from then on; it holds no \<open>UploadSend\<close> for it before the
  goroutine has exited and at most one afterwards; and it holds nothing for a pipe that
  does not exist yet.
\<close>

definition uploads_logged :: "'b world \<Rightarrow> bool" where
  "uploads_logged W =
     ((\<forall>t < length (uploads W).
         ur (uploads W ! t) < length (pipes W) \<and>
         (\<forall>t' < t. ur (uploads W ! t') \<noteq> ur (uploads W ! t)) \<and>
         filter (is_UploadCall_of (ur (uploads W ! t))) (calls W) =
           (if ustate (uploads W ! t) = Spawned then []
            else [UploadCall (ubucket (uploads W ! t)) (ukey (uploads W ! t))
                    (ur (uploads W ! t))]) \<and>
         length (filter (is_UploadSend_of (ur (uploads W ! t))) (calls W)) \<le>
           (if ustate (uploads W ! t) = Exited then 1 else 0)) \<and>
      (\<forall>r \<ge> length (pipes W).
         filter (is_UploadCall_of r) (calls W) = [] \<and>
         filter (is_UploadSend_of r) (calls W) = []))"

section \<open>Reading a handle to its end\<close>

text \<open>
  A caller that reads the handle of \<^verbatim>\<open>Open\<close> with a buffer of \<open>n\<close> bytes until the data is
  exhausted receives the data in pieces of \<open>n\<close> bytes, the last one possibly shorter.
\<close>

function read_chunks :: "nat \<Rightarrow> bytes \<Rightarrow> bytes list" where
  "read_chunks n xs = (if n = 0 \<or> xs = [] then [] else take n xs # read_chunks n (drop n xs))"
  by pat_completeness auto
termination
  by (relation "measure (\<lambda>(n, xs). length xs)") auto

declare read_chunks.simps [simp del]



section \<open>The transfer managers of the SDK\<close>

text \<open>
  \<^verbatim>\<open>New\<close> builds the uploader and the downloader of the store with
  \<^verbatim>\<open>s3manager.NewUploaderWithClient(s3api)\<close> and \<^verbatim>\<open>s3manager.NewDownloaderWithClient(s3api)\<close>
  and no options. Both are code of the AWS SDK and turn one call into requests to the
  client. A downloader asks for the object in ranges of its part size, one \<^verbatim>\<open>GetObject\<close>
  request with a \<^verbatim>\<open>Range\<close> for each: the answer to the first tells it the length of the
  object, and it goes on while the position is below that length. An uploader sends a body
  shorter than its part size in one \<^verbatim>\<open>PutObject\<close> request, and a longer one as a multipart
  upload. The default part size of both is 5 MiB. \<open>sdk_api\<close> is a backend of this kind over
  objects kept in memory; it records the requests the client receives, a \<^verbatim>\<open>GetObject\<close> with
  the first and the last byte of its range.
\<close>

datatype request =
    HeadObjectRequest string string
  | GetObjectRequest string string nat nat
  | PutObjectRequest string string
  | CreateMultipartUploadRequest string string
  | UploadPartRequest string string nat
  | CompleteMultipartUploadRequest string string
  | DeleteObjectRequest string string

record sdk =
  objects :: "string \<times> string \<Rightarrow> bytes option"
  requests :: "request list"

definition DefaultDownloadPartSize :: nat where
  "DefaultDownloadPartSize = 1024 * 1024 * 5"

definition DefaultUploadPartSize :: nat where
  "DefaultUploadPartSize = 1024 * 1024 * 5"

text \<open>
  The ranges a downloader asks for after the first one, from the position \<open>pos\<close>, for an
  object of \<open>len\<close> bytes.
\<close>

function download_ranges :: "nat \<Rightarrow> nat \<Rightarrow> nat \<Rightarrow> (nat \<times> nat) list" where
  "download_ranges part pos len =
     (if part = 0 \<or> len \<le> pos then []
      else (pos, pos + part - 1) # download_ranges part (pos + part) len)"
  by pat_completeness auto
termination
  by (relation "measure (\<lambda>(part, pos, len). len - pos)") auto

declare download_ranges.simps [simp del]

definition sdk_Download ::
  "nat \<Rightarrow> sdk \<Rightarrow> string \<Rightarrow> string \<Rightarrow> (bytes \<times> int \<times> string option) \<times> sdk"
where
  "sdk_Download part b bk k =
     (case objects b (bk, k) of
        None \<Rightarrow>
          (([], 0, Some ''NoSuchKey''),
           b\<lparr> requests := requests b @ [GetObjectRequest bk k 0 (part - 1)] \<rparr>)
      | Some d \<Rightarrow>
          (let ranges = (0, part - 1) # download_ranges part part (length d)
           in ((concat (map (\<lambda>(i, j). take (Suc j - i) (drop i d)) ranges),
                int (length d), None),
               b\<lparr> requests := requests b @
                      map (\<lambda>(i, j). GetObjectRequest bk k i j) ranges \<rparr>)))"

definition sdk_Upload ::
  "nat \<Rightarrow> sdk \<Rightarrow> string \<Rightarrow> string \<Rightarrow> bytes \<Rightarrow> string option \<times> sdk"
where
  "sdk_Upload part b bk k body =
     (None,
      b\<lparr> objects := (objects b)((bk, k) \<mapsto> body),
         requests := requests b @
           (if length body < part then [PutObjectRequest bk k]
            else CreateMultipartUploadRequest bk k #
                 map (UploadPartRequest bk k) [1 ..< Suc (length (read_chunks part body))] @
                 [CompleteMultipartUploadRequest bk k]) \<rparr>)"

definition sdk_api :: "sdk S3API" where
  "sdk_api =
     \<lparr> HeadObject = (\<lambda>b bk k.
          (if objects b (bk, k) = None then Some ''NotFound'' else None,
           b\<lparr> requests := requests b @ [HeadObjectRequest bk k] \<rparr>)),
       Upload = sdk_Upload DefaultUploadPartSize,
       Download = sdk_Download DefaultDownloadPartSize,
       DeleteObject = (\<lambda>b bk k.
          (None, b\<lparr> objects := (objects b)((bk, k) := None),
                    requests := requests b @ [DeleteObjectRequest bk k] \<rparr>)) \<rparr>"

section \<open>Properties of the operations\<close>

subsection \<open>Keys\<close>

lemma clean_loop_plain:
  assumes "CHR ''/'' \<notin> set (c # rest)" and "c # rest \<noteq> ''.''" and "c # rest \<noteq> ''..''"
  shows "clean_loop False (c # rest) [] 0 = c # rest"
proof -
  have tw: "takeWhile (\<lambda>x. x \<noteq> CHR ''/'') rest = rest"
    using assms(1) by (auto intro: takeWhile_eq_all_conv[THEN iffD2])
  have dw: "dropWhile (\<lambda>x. x \<noteq> CHR ''/'') rest = []"
    using assms(1) by auto
  have c: "c \<noteq> CHR ''/''" using assms(1) by auto
  have r1: "rest \<noteq> [] \<Longrightarrow> hd rest \<noteq> CHR ''/''"
    using assms(1) by (cases rest) auto
  have r2: "rest \<noteq> [] \<Longrightarrow> tl rest \<noteq> [] \<Longrightarrow> hd (tl rest) \<noteq> CHR ''/''"
    using assms(1) by (cases rest; cases "tl rest") auto
  have dot: "\<not> (c = CHR ''.'' \<and> (rest = [] \<or> hd rest = CHR ''/''))"
    using assms(2) r1 by auto
  have dotdot: "\<not> (c = CHR ''.'' \<and> hd rest = CHR ''.'' \<and> (tl rest = [] \<or> hd (tl rest) = CHR ''/''))"
  proof
    assume a: "c = CHR ''.'' \<and> hd rest = CHR ''.'' \<and> (tl rest = [] \<or> hd (tl rest) = CHR ''/'')"
    with dot have ne: "rest \<noteq> []" by auto
    with a r2 have "tl rest = []" by auto
    with ne a have "rest = ''.''" by (cases rest) auto
    with a assms(3) show False by simp
  qed
  show ?thesis
    by (simp add: tw dw c dot dotdot)
qed

lemma Join_empty_prefix:
  assumes "CHR ''/'' \<notin> set s"
  shows "Join ['''', s] = s"
proof (cases s)
  case Nil
  then show ?thesis by (simp add: Join_def)
next
  case (Cons c rest)
  have c: "c \<noteq> CHR ''/''" using assms Cons by auto
  consider "s = ''.''" | "s = ''..''" | "s \<noteq> ''.''" "s \<noteq> ''..''" by blast
  then show ?thesis
  proof cases
    case 1
    then show ?thesis by (simp add: Join_def Clean_def)
  next
    case 2
    then show ?thesis by (simp add: Join_def Clean_def)
  next
    case 3
    with assms Cons have "clean_loop False (c # rest) [] 0 = c # rest"
      by (intro clean_loop_plain) auto
    with Cons c show ?thesis by (simp add: Join_def Clean_def)
  qed
qed

text \<open>
  Claim C9. \<^verbatim>\<open>Remove\<close> joins the prefix and the identifier's string whatever the prefix is,
  \<^verbatim>\<open>Create\<close> and \<^verbatim>\<open>Open\<close> only when the prefix is not empty. For every store and every
  identifier whose canonical string contains no slash (a c4 identifier is \<^verbatim>\<open>c4\<close> followed by
  base-58 digits), the join of the empty prefix and the identifier's string is that string,
  and the three operations compute the same key: the \<^verbatim>\<open>DeleteObject\<close> of
  \<^verbatim>\<open>Remove\<close>, the \<^verbatim>\<open>HeadObject\<close> of \<^verbatim>\<open>Create\<close> and the download of \<^verbatim>\<open>Open\<close> name the same
  bucket and key.
\<close>

theorem Remove_addresses_key_of_Create_and_Open:
  assumes "CHR ''/'' \<notin> set (String ident)"
  shows "Join ['''', String ident] = String ident \<and>
         Remove_path (store W) ident = object_key (store W) ident \<and>
         calls (snd (Remove api ident W)) =
           calls W @ [DeleteObjectCall (bucket (store W)) (object_key (store W) ident)] \<and>
         calls (snd (Create api ident W)) =
           calls W @ [HeadObjectCall (bucket (store W)) (object_key (store W) ident)] \<and>
         calls (snd (Open api ident W)) =
           calls W @ [DownloadCall (bucket (store W)) (object_key (store W) ident)]"
proof -
  have k: "Remove_path (store W) ident = object_key (store W) ident"
    using Join_empty_prefix[OF assms]
    by (cases "prefix (store W) = []") (simp_all add: Remove_path_def object_key_def)
  have r: "calls (snd (Remove api ident W)) =
      calls W @ [DeleteObjectCall (bucket (store W)) (object_key (store W) ident)]"
    by (simp add: Remove_def Let_def split_beta log_call_def k)
  have c: "calls (snd (Create api ident W)) =
      calls W @ [HeadObjectCall (bucket (store W)) (object_key (store W) ident)]"
    by (simp add: Create_def Let_def split_beta log_call_def wg_Add_def)
  have o: "calls (snd (Open api ident W)) =
      calls W @ [DownloadCall (bucket (store W)) (object_key (store W) ident)]"
    by (simp add: Open_def Let_def split_beta log_call_def wg_Add_def split: option.splits)
  from Join_empty_prefix[OF assms] k r c o show ?thesis by blast
qed

theorem Remove_addresses_key_of_Create_and_Open_witness:
  "CHR ''/'' \<notin> set (String (ID ''c41yP4cqy7jmaRDzC2bmcGNZkuQb3VdftMk6YH7ynQ2Qw4zktKsyA9fk52xghNQNAdkpF9iFmFkKh2bNVG4kDWhsok'')) \<and>
   Remove_path (fst (New ''bucket'' ''''))
     (ID ''c41yP4cqy7jmaRDzC2bmcGNZkuQb3VdftMk6YH7ynQ2Qw4zktKsyA9fk52xghNQNAdkpF9iFmFkKh2bNVG4kDWhsok'') =
   ''c41yP4cqy7jmaRDzC2bmcGNZkuQb3VdftMk6YH7ynQ2Qw4zktKsyA9fk52xghNQNAdkpF9iFmFkKh2bNVG4kDWhsok''"
  using Remove_addresses_key_of_Create_and_Open
    [of "ID ''c41yP4cqy7jmaRDzC2bmcGNZkuQb3VdftMk6YH7ynQ2Qw4zktKsyA9fk52xghNQNAdkpF9iFmFkKh2bNVG4kDWhsok''"
        "boot (\<lambda>k. None) ''bucket'' ''''" mem_api]
  by (simp add: boot_def object_key_def New_def)

subsection \<open>What every step preserves\<close>

lemmas op_defs = Create_def Open_def Write_def Close_call_def Close_poll_def Close_timer_def
  Close_return_def Upload_begin_def Upload_end_def Upload_abort_def Upload_exit_def
  Copy_begin_def Copy_end_def Read_def Remove_def Store_Close_def Configure_def wg_Add_def
  set_pipe_def log_call_def

lemmas eval_defs = op_defs boot_def New_def object_key_def Join_def Clean_def mem_api_def
  new_pipe_def closeWrite_def closeRead_def pipe_done_def writeCloseError_def
  readCloseError_def returned_def opened_def Close_select_def itoa_def utoa.simps Let_def

lemma run_induct_step:
  assumes "run api acts W = Some (rs, W')" and "P W"
    and "\<And>a r V V'. exec api a V = Some (r, V') \<Longrightarrow> P V \<Longrightarrow> P V'"
  shows "P W'"
  using assms(1,2)
proof (induction acts arbitrary: W rs)
  case Nil
  then show ?case by simp
next
  case (Cons a acts)
  from Cons.prems(1) obtain r V rs' where e: "exec api a W = Some (r, V)"
    and r: "run api acts V = Some (rs', W')"
    by (auto split: option.splits)
  from assms(3)[OF e Cons.prems(2)] have "P V" .
  from Cons.IH[OF r this] show ?case .
qed

lemma closed_update_same: "closed wc \<Longrightarrow> wc\<lparr> closed := True \<rparr> = wc"
  by (cases wc) simp

lemma exec_lengths:
  "exec api a W = Some (r, W') \<Longrightarrow>
     length (writers W) \<le> length (writers W') \<and> length (pipes W) \<le> length (pipes W') \<and>
     length (uploads W) \<le> length (uploads W') \<and> length (copies W) \<le> length (copies W')"
  by (cases a) (auto simp: op_defs Let_def split_beta split: if_splits option.splits)

lemma exec_writer:
  "exec api a W = Some (r, W') \<Longrightarrow> h < length (writers W) \<Longrightarrow>
     writers W' ! h = (writers W ! h)\<lparr> closed := closed (writers W' ! h) \<rparr> \<and>
     (closed (writers W ! h) \<longrightarrow> closed (writers W' ! h))"
  by (cases a)
     (auto simp: op_defs Let_def split_beta nth_append nth_list_update
           split: if_splits option.splits)

lemma exec_handles_ok:
  assumes "exec api a W = Some (r, W')" and "handles_ok W"
  shows "handles_ok W'"
  unfolding handles_ok_def
proof (intro allI impI)
  fix h
  assume h: "h < length (writers W')"
  have old: "h < length (writers W) \<Longrightarrow> w (writers W ! h) < length (pipes W)"
    using assms(2) by (simp add: handles_ok_def)
  show "w (writers W' ! h) < length (pipes W')"
    using assms(1) h old
    by (cases a)
       (auto simp: op_defs Let_def split_beta nth_append nth_list_update less_Suc_eq
             split: if_splits option.splits)
qed

lemma exec_confirmations_ok:
  assumes "exec api a W = Some (r, W')" and "confirmations_ok W"
  shows "confirmations_ok W'"
  unfolding confirmations_ok_def
proof (intro allI impI)
  fix h c
  assume c: "confirmations W' h = Some c"
  have old: "\<And>c0. confirmations W h = Some c0 \<Longrightarrow>
      h < length (writers W) \<and> closed (writers W ! h) \<and> confirmCreate (writers W ! h)"
    using assms(2) by (auto simp: confirmations_ok_def)
  show "h < length (writers W') \<and> closed (writers W' ! h) \<and> confirmCreate (writers W' ! h)"
    using assms(1) c old
    by (cases a)
       (auto simp: op_defs Let_def split_beta nth_append nth_list_update less_Suc_eq
             split: if_splits option.splits)
qed

lemma boot_ok: "handles_ok (boot b bk pre) \<and> confirmations_ok (boot b bk pre)"
  by (simp add: handles_ok_def confirmations_ok_def boot_def)

lemma reachable_ok:
  assumes "run api acts (boot b bk pre) = Some (rs, W)"
  shows "handles_ok W \<and> confirmations_ok W"
  by (rule run_induct_step[OF assms, where P = "\<lambda>W. handles_ok W \<and> confirmations_ok W"])
     (auto simp: boot_ok intro: exec_handles_ok exec_confirmations_ok)

lemma run_closed_handle:
  assumes "run api acts W = Some (rs, W')"
    and "h < length (writers W)" and "w (writers W ! h) < length (pipes W)"
    and "closed (writers W ! h)"
  shows "h < length (writers W') \<and> w (writers W' ! h) < length (pipes W') \<and>
         closed (writers W' ! h) \<and> writers W' ! h = writers W ! h"
proof -
  let ?wc = "writers W ! h"
  let ?P = "\<lambda>V. h < length (writers V) \<and> w (writers V ! h) < length (pipes V) \<and>
                  closed (writers V ! h) \<and> writers V ! h = ?wc"
  have "?P W'"
  proof (rule run_induct_step[OF assms(1), where P = ?P])
    show "?P W" using assms by simp
  next
    fix a r V V'
    assume e: "exec api a V = Some (r, V')" and p: "?P V"
    from exec_writer[OF e, of h] p
    have w: "writers V' ! h = (writers V ! h)\<lparr> closed := closed (writers V' ! h) \<rparr>"
      and c: "closed (writers V' ! h)" by auto
    from w c p closed_update_same[OF assms(4)] have eq: "writers V' ! h = ?wc"
      by simp
    from exec_lengths[OF e] p eq c show "?P V'" by auto
  qed
  then show ?thesis by auto
qed

subsection \<open>Create and Open on a failing backend call\<close>

text \<open>
  Claim C2. When \<^verbatim>\<open>HeadObject\<close> reports the key of the identifier as existing (it returns
  no error), \<^verbatim>\<open>Create\<close> returns the \<^verbatim>\<open>os.PathError\<close> with \<^verbatim>\<open>os.ErrExist\<close> that carries the
  computed key, and no handle. Nothing is registered or spawned: the counter of the wait
  group, the pipes, the handles and the goroutines are as before, and the only backend
  call issued is the \<^verbatim>\<open>HeadObject\<close>.
\<close>

theorem Create_on_existing_key:
  assumes "fst (HeadObject api (s3 W) (bucket (store W)) (object_key (store W) ident)) = None"
  shows "fst (Create api ident W) =
           Inl (PathError ''create'' (object_key (store W) ident) ErrExist) \<and>
         exec api (ACreate ident) W =
           Some (Failed (PathError ''create'' (object_key (store W) ident) ErrExist),
                 snd (Create api ident W)) \<and>
         store (snd (Create api ident W)) = store W \<and>
         uploads (snd (Create api ident W)) = uploads W \<and>
         copies (snd (Create api ident W)) = copies W \<and>
         pipes (snd (Create api ident W)) = pipes W \<and>
         writers (snd (Create api ident W)) = writers W \<and>
         calls (snd (Create api ident W)) =
           calls W @ [HeadObjectCall (bucket (store W)) (object_key (store W) ident)]"
  using assms by (simp add: Create_def Let_def split_beta log_call_def opened_def)

theorem Create_on_existing_key_witness:
  "fst (HeadObject mem_api [(''bucket'', ''pre/c4x'') \<mapsto> [1, 2]] ''bucket''
         (object_key (fst (New ''bucket'' ''pre'')) (ID ''c4x''))) = None \<and>
   fst (Create mem_api (ID ''c4x'') (boot [(''bucket'', ''pre/c4x'') \<mapsto> [1, 2]] ''bucket'' ''pre'')) =
     Inl (PathError ''create'' ''pre/c4x'' ErrExist) \<and>
   uploads (snd (Create mem_api (ID ''c4x'')
     (boot [(''bucket'', ''pre/c4x'') \<mapsto> [1, 2]] ''bucket'' ''pre''))) = [] \<and>
   calls (snd (Create mem_api (ID ''c4x'')
     (boot [(''bucket'', ''pre/c4x'') \<mapsto> [1, 2]] ''bucket'' ''pre''))) =
     [HeadObjectCall ''bucket'' ''pre/c4x'']"
  using Create_on_existing_key
    [of mem_api "boot [(''bucket'', ''pre/c4x'') \<mapsto> [1, 2]] ''bucket'' ''pre''" "ID ''c4x''"]
  by (simp add: eval_defs)

text \<open>
  Claim C7. When the download fails, \<^verbatim>\<open>Open\<close> returns no handle and the error formatted
  from the computed key, the text of the backend's error and the byte count \<open>n\<close> of the
  download; the counter of the wait group, the pipes and the goroutines are as before.
\<close>

theorem Open_on_failed_download:
  assumes "Download api (s3 W) (bucket (store W)) (object_key (store W) ident) =
             ((buff, n, Some e), b)"
  shows "fst (Open api ident W) =
           Inl (Errorf (object_key (store W) ident @ '' '' @ e @ '' (n == '' @ itoa n @ '')'')) \<and>
         exec api (AOpen ident) W =
           Some (Failed (Errorf
                   (object_key (store W) ident @ '' '' @ e @ '' (n == '' @ itoa n @ '')'')),
                 snd (Open api ident W)) \<and>
         store (snd (Open api ident W)) = store W \<and>
         copies (snd (Open api ident W)) = copies W \<and>
         uploads (snd (Open api ident W)) = uploads W \<and>
         pipes (snd (Open api ident W)) = pipes W \<and>
         calls (snd (Open api ident W)) =
           calls W @ [DownloadCall (bucket (store W)) (object_key (store W) ident)]"
  using assms by (simp add: Open_def Let_def log_call_def opened_def)

theorem Open_on_failed_download_witness:
  "Download mem_api Map.empty ''bucket'' (object_key (fst (New ''bucket'' ''pre'')) (ID ''c4x'')) =
     (([], 0, Some ''NoSuchKey''), Map.empty) \<and>
   fst (Open mem_api (ID ''c4x'') (boot Map.empty ''bucket'' ''pre'')) =
     Inl (Errorf ''pre/c4x NoSuchKey (n == 0)'') \<and>
   copies (snd (Open mem_api (ID ''c4x'') (boot Map.empty ''bucket'' ''pre''))) = []"
  using Open_on_failed_download
    [of mem_api "boot Map.empty ''bucket'' ''pre''" "ID ''c4x''" "[]" 0 "''NoSuchKey''" Map.empty]
  by (simp add: eval_defs)

subsection \<open>Closing a write handle\<close>

lemma Close_call_enabled:
  assumes "exec api (AClose h p) W = Some (r, W1)"
  shows "h < length (writers W1) \<and> w (writers W1 ! h) < length (pipes W1) \<and>
         closed (writers W1 ! h)"
  using assms
  by (auto simp: Close_call_def Let_def set_pipe_def split: if_splits)

lemma Close_call_closed:
  assumes "h < length (writers W)" and "w (writers W ! h) < length (pipes W)"
    and "closed (writers W ! h)"
  shows "exec api (AClose h p) W = Some (Failed (Errorf ''already closed''), W)"
  using assms by (simp add: Close_call_def returned_def)

lemma Close_s3c4_go_closed:
  "closed0 (snd (Close_s3c4_go wc p1 f1)) \<and>
   Close_s3c4_go (snd (Close_s3c4_go wc p1 f1)) p2 f2 =
     (Some (Errorf ''already closed''), snd (Close_s3c4_go wc p1 f1))"
  by (cases f1) (simp_all add: Close_s3c4_go_def Let_def)

text \<open>
  Claim C5. After a first \<^verbatim>\<open>Close\<close> of a write handle, whatever it returned and whatever
  else happened since, a further \<^verbatim>\<open>Close\<close> returns the error \<^verbatim>\<open>already closed\<close> and leaves
  the whole state as it is: the pipe is not closed again, no goroutine is touched, no
  confirmation is started. The same holds for the \<^verbatim>\<open>Close\<close> of the older source file.
\<close>

theorem Close_twice:
  assumes "exec api (AClose h p1) W = Some (r1, W1)"
    and "run api acts W1 = Some (rs, W2)"
  shows "exec api (AClose h p2) W2 = Some (Failed (Errorf ''already closed''), W2) \<and>
         Close_s3c4_go (snd (Close_s3c4_go wc p1 f1)) p2 f2 =
           (Some (Errorf ''already closed''), snd (Close_s3c4_go wc p1 f1))"
proof -
  from Close_call_enabled[OF assms(1)]
  have "h < length (writers W1)" "w (writers W1 ! h) < length (pipes W1)"
    "closed (writers W1 ! h)" by auto
  from run_closed_handle[OF assms(2) this]
  have "h < length (writers W2)" "w (writers W2 ! h) < length (pipes W2)"
    "closed (writers W2 ! h)" by auto
  from Close_call_closed[OF this] Close_s3c4_go_closed show ?thesis by blast
qed

theorem Close_twice_witness:
  "\<exists>r1 W1 rs W2.
     exec mem_api (AClose 0 None) (snd (Create mem_api (ID ''c4x'') (boot Map.empty ''b'' ''''))) =
       Some (r1, W1) \<and>
     run mem_api [AUploadBegin 0, AUploadEnd 0, AClosePoll 0, ACloseReturn 0] W1 = Some (rs, W2) \<and>
     exec mem_api (AClose 0 None) W2 = Some (Failed (Errorf ''already closed''), W2)"
proof -
  let ?W = "snd (Create mem_api (ID ''c4x'') (boot Map.empty ''b'' ''''))"
  have "exec mem_api (AClose 0 None) ?W \<noteq> None"
    by (simp add: eval_defs)
  then obtain r1 W1 where 1: "exec mem_api (AClose 0 None) ?W = Some (r1, W1)"
    by auto
  then have "run mem_api [AUploadBegin 0, AUploadEnd 0, AClosePoll 0, ACloseReturn 0] W1 \<noteq> None"
    by (auto simp: eval_defs)
  then obtain rs W2
    where 2: "run mem_api [AUploadBegin 0, AUploadEnd 0, AClosePoll 0, ACloseReturn 0] W1 =
      Some (rs, W2)"
    by auto
  from Close_twice[OF 1 2] 1 2 show ?thesis by blast
qed


lemma run_ok:
  assumes "run api acts W = Some (rs, W')" and "handles_ok W \<and> confirmations_ok W"
  shows "handles_ok W' \<and> confirmations_ok W'"
  by (rule run_induct_step[OF assms(1), where P = "\<lambda>W. handles_ok W \<and> confirmations_ok W"])
     (auto simp: assms(2) intro: exec_handles_ok exec_confirmations_ok)

lemma run_handle_fields:
  assumes "run api acts W = Some (rs, W')" and "h < length (writers W)"
  shows "h < length (writers W') \<and>
         confirmCreate (writers W' ! h) = confirmCreate (writers W ! h) \<and>
         confirmationTimeout (writers W' ! h) = confirmationTimeout (writers W ! h) \<and>
         c4id (writers W' ! h) = c4id (writers W ! h) \<and>
         headInput (writers W' ! h) = headInput (writers W ! h)"
proof -
  let ?P = "\<lambda>V. h < length (writers V) \<and>
         confirmCreate (writers V ! h) = confirmCreate (writers W ! h) \<and>
         confirmationTimeout (writers V ! h) = confirmationTimeout (writers W ! h) \<and>
         c4id (writers V ! h) = c4id (writers W ! h) \<and>
         headInput (writers V ! h) = headInput (writers W ! h)"
  show ?thesis
  proof (rule run_induct_step[OF assms(1), where P = ?P])
    show "?P W" using assms(2) by simp
  next
    fix a r V V'
    assume e: "exec api a V = Some (r, V')" and p: "?P V"
    from p have h: "h < length (writers V)" by simp
    from exec_writer[OF e h]
    have "writers V' ! h = (writers V ! h)\<lparr> closed := closed (writers V' ! h) \<rparr>" by simp
    then have "confirmCreate (writers V' ! h) = confirmCreate (writers V ! h) \<and>
         confirmationTimeout (writers V' ! h) = confirmationTimeout (writers V ! h) \<and>
         c4id (writers V' ! h) = c4id (writers V ! h) \<and>
         headInput (writers V' ! h) = headInput (writers V ! h)"
      by (metis s3WriteCloser.select_convs s3WriteCloser.surjective s3WriteCloser.update_convs(6))
    with exec_lengths[OF e] p show "?P V'" by auto
  qed
qed

lemma no_confirmation_no_step:
  assumes "confirmations W h = None"
  shows "exec api (AClosePoll h) W = None \<and> exec api (ACloseTimer h) W = None \<and>
         exec api (ACloseReturn h) W = None"
  using assms by (simp add: Close_poll_def Close_timer_def Close_return_def)

lemma exec_no_confirmation:
  assumes "exec api a W = Some (r, W')"
    and "h < length (writers W)" and "closed (writers W ! h)" and "confirmations W h = None"
  shows "confirmations W' h = None"
  using assms
  by (cases a)
     (auto simp: op_defs Let_def split_beta nth_append nth_list_update
           split: if_splits option.splits)

lemma run_no_confirmation:
  assumes "run api acts W = Some (rs, W')"
    and "h < length (writers W)" and "closed (writers W ! h)" and "confirmations W h = None"
  shows "confirmations W' h = None"
proof -
  let ?P = "\<lambda>V. h < length (writers V) \<and> closed (writers V ! h) \<and> confirmations V h = None"
  have "?P W'"
  proof (rule run_induct_step[OF assms(1), where P = ?P])
    show "?P W" using assms by simp
  next
    fix a r V V'
    assume e: "exec api a V = Some (r, V')" and p: "?P V"
    from exec_writer[OF e, of h] exec_lengths[OF e] exec_no_confirmation[OF e] p
    show "?P V'" by auto
  qed
  then show ?thesis by simp
qed

lemma Create_handle:
  assumes "exec api (ACreate ident) W = Some (Handle h, W1)"
  shows "h = length (writers W) \<and> h < length (writers W1) \<and>
         writers W1 ! h =
           \<lparr> confirmCreate = ConfirmCreate (store W),
             confirmationTimeout = ConfirmationTimeout (store W),
             confirmationRequestRate = ConfirmationRequestRate (store W),
             c4id = ident, w = length (pipes W), closed = False,
             headInput = (bucket (store W), object_key (store W) ident) \<rparr>"
  using assms
  by (auto simp: Create_def Let_def split_beta log_call_def wg_Add_def opened_def
           split: if_splits)

lemma Close_call_unconfirmed:
  assumes "h < length (writers W)" and "w (writers W ! h) < length (pipes W)"
    and "\<not> closed (writers W ! h)" and "\<not> confirmCreate (writers W ! h)"
  shows "\<exists>W1. exec api (AClose h None) W = Some (Ok, W1) \<and> calls W1 = calls W \<and>
           s3 W1 = s3 W \<and> confirmations W1 = confirmations W \<and>
           h < length (writers W1) \<and> closed (writers W1 ! h) \<and>
           \<not> confirmCreate (writers W1 ! h)"
  using assms by (simp add: Close_call_def Let_def set_pipe_def returned_def)

text \<open>
  Claim C6. A handle created while \<^verbatim>\<open>ConfirmCreate\<close> is false keeps that setting. When it is
  closed and closing the write end succeeds, \<^verbatim>\<open>Close\<close> returns \<^verbatim>\<open>nil\<close> in the call itself,
  for every backend: no backend call is logged, the backend state is untouched, no
  confirmation is started, and in no later state can a poll for the handle take place.
\<close>

theorem Close_without_confirmation:
  assumes "run api acts0 (boot b bk pre) = Some (rs0, W0)"
    and "\<not> ConfirmCreate (store W0)"
    and "exec api (ACreate ident) W0 = Some (Handle h, W1)"
    and "run api acts1 W1 = Some (rs1, W2)"
    and "\<not> closed (writers W2 ! h)"
  shows "\<exists>W3. exec api (AClose h None) W2 = Some (Ok, W3) \<and>
           calls W3 = calls W2 \<and> s3 W3 = s3 W2 \<and> confirmations W3 = confirmations W2 \<and>
           (\<forall>acts2 rs2 W4. run api acts2 W3 = Some (rs2, W4) \<longrightarrow>
              exec api (AClosePoll h) W4 = None)"
proof -
  from Create_handle[OF assms(3)] assms(2)
  have h1: "h < length (writers W1)" and nc1: "\<not> confirmCreate (writers W1 ! h)" by auto
  from run_handle_fields[OF assms(4) h1] nc1
  have h2: "h < length (writers W2)" and nc2: "\<not> confirmCreate (writers W2 ! h)" by auto
  have ok1: "handles_ok W1 \<and> confirmations_ok W1"
    using reachable_ok[OF assms(1)] exec_handles_ok[OF assms(3)] exec_confirmations_ok[OF assms(3)]
    by blast
  from run_ok[OF assms(4) ok1] have ok2: "handles_ok W2 \<and> confirmations_ok W2" .
  with h2 have p2: "w (writers W2 ! h) < length (pipes W2)" by (simp add: handles_ok_def)
  from Close_call_unconfirmed[OF h2 p2 assms(5) nc2]
  obtain W3 where e3: "exec api (AClose h None) W2 = Some (Ok, W3)"
    and f3: "calls W3 = calls W2" "s3 W3 = s3 W2" "confirmations W3 = confirmations W2"
    and h3: "h < length (writers W3)" and nc3: "\<not> confirmCreate (writers W3 ! h)"
    by blast
  have ok3: "handles_ok W3 \<and> confirmations_ok W3"
    using ok2 exec_handles_ok[OF e3] exec_confirmations_ok[OF e3] by blast
  have later: "exec api (AClosePoll h) W4 = None" if r: "run api acts2 W3 = Some (rs2, W4)"
    for acts2 rs2 W4
  proof -
    from run_ok[OF r ok3] have "confirmations_ok W4" by simp
    moreover from run_handle_fields[OF r h3] nc3 have "\<not> confirmCreate (writers W4 ! h)" by simp
    ultimately have "confirmations W4 h = None"
      by (cases "confirmations W4 h") (auto simp: confirmations_ok_def)
    then show ?thesis using no_confirmation_no_step by blast
  qed
  from e3 f3 later show ?thesis by blast
qed

theorem Close_without_confirmation_witness:
  "\<exists>rs0 W0 W1 W2 W3.
     run mem_api [AConfigure False 5 5] (boot Map.empty ''b'' '''') = Some (rs0, W0) \<and>
     \<not> ConfirmCreate (store W0) \<and>
     exec mem_api (ACreate (ID ''c4x'')) W0 = Some (Handle 0, W1) \<and>
     run mem_api [AUploadBegin 0, AWrite 0 [1, 2]] W1 = Some ([Step, Wrote 2 None], W2) \<and>
     \<not> closed (writers W2 ! 0) \<and>
     exec mem_api (AClose 0 None) W2 = Some (Ok, W3) \<and> calls W3 = calls W2 \<and>
     exec mem_api (AClosePoll 0) W3 = None"
proof -
  let ?B = "boot Map.empty ''b'' '''' :: (string \<times> string \<Rightarrow> bytes option) world"
  have "run mem_api [AConfigure False 5 5] ?B \<noteq> None" by simp
  then obtain rs0 W0 where 0: "run mem_api [AConfigure False 5 5] ?B = Some (rs0, W0)"
    by auto
  then have W0: "W0 = Configure False 5 5 ?B" by auto
  then have c0: "\<not> ConfirmCreate (store W0)" by (simp add: Configure_def)
  have "\<exists>W1. exec mem_api (ACreate (ID ''c4x'')) W0 = Some (Handle 0, W1)"
    unfolding W0 by (simp add: eval_defs)
  then obtain W1 where 1: "exec mem_api (ACreate (ID ''c4x'')) W0 = Some (Handle 0, W1)" ..
  then have "\<exists>W2. run mem_api [AUploadBegin 0, AWrite 0 [1, 2]] W1 = Some ([Step, Wrote 2 None], W2) \<and>
      \<not> closed (writers W2 ! 0)"
    unfolding W0 by (auto simp: eval_defs)
  then obtain W2
    where 2: "run mem_api [AUploadBegin 0, AWrite 0 [1, 2]] W1 = Some ([Step, Wrote 2 None], W2)"
      and n2: "\<not> closed (writers W2 ! 0)" by blast
  from Close_without_confirmation[OF 0 c0 1 2 n2]
  obtain W3 where 3: "exec mem_api (AClose 0 None) W2 = Some (Ok, W3)" "calls W3 = calls W2"
    and 4: "\<forall>acts2 rs2 W4. run mem_api acts2 W3 = Some (rs2, W4) \<longrightarrow>
              exec mem_api (AClosePoll 0) W4 = None" by blast
  from 4 have "exec mem_api (AClosePoll 0) W3 = None"
    by (metis run.simps(1))
  with 0 c0 1 2 n2 3 show ?thesis by blast
qed

lemma Close_call_pipe_error:
  assumes "h < length (writers W)" and "w (writers W ! h) < length (pipes W)"
    and "\<not> closed (writers W ! h)"
  shows "\<exists>W1. exec api (AClose h (Some e)) W = Some (Failed e, W1) \<and>
           h < length (writers W1) \<and> w (writers W1 ! h) < length (pipes W1) \<and>
           closed (writers W1 ! h) \<and> pipes W1 = pipes W \<and>
           confirmations W1 = confirmations W"
  using assms by (simp add: Close_call_def Let_def returned_def)

lemma Close_s3c4_go_pipe_error:
  "\<not> closed0 wc \<Longrightarrow> fst (Close_s3c4_go wc (Some e) f1) = Some e"
  by (simp add: Close_s3c4_go_def Let_def)

text \<open>
  Claim C10. \<^verbatim>\<open>Close\<close> sets the flag \<^verbatim>\<open>closed\<close> before it closes the write end. When closing
  the write end fails on the first \<^verbatim>\<open>Close\<close> of a handle, that \<^verbatim>\<open>Close\<close> returns the failure,
  the pipe is as before and no confirmation is started; in every later state a \<^verbatim>\<open>Close\<close>
  of the handle returns \<^verbatim>\<open>already closed\<close> and changes nothing, and no step of a
  confirmation of the handle (poll, timer, return from the \<^verbatim>\<open>select\<close>) can take place. The
  \<^verbatim>\<open>Close\<close> of the older source file returns the failure and then \<^verbatim>\<open>already closed\<close> as well.
\<close>

theorem failed_Close_is_final:
  assumes "run api acts0 (boot b bk pre) = Some (rs0, W)"
    and "h < length (writers W)" and "\<not> closed (writers W ! h)"
  shows "(\<exists>W1. exec api (AClose h (Some e)) W = Some (Failed e, W1) \<and>
            closed (writers W1 ! h) \<and> pipes W1 = pipes W \<and> confirmations W1 h = None \<and>
            (\<forall>acts rs W2 p. run api acts W1 = Some (rs, W2) \<longrightarrow>
               exec api (AClose h p) W2 = Some (Failed (Errorf ''already closed''), W2) \<and>
               exec api (AClosePoll h) W2 = None \<and>
               exec api (ACloseTimer h) W2 = None \<and>
               exec api (ACloseReturn h) W2 = None)) \<and>
         (\<not> closed0 wc \<longrightarrow>
            fst (Close_s3c4_go wc (Some e) f1) = Some e \<and>
            Close_s3c4_go (snd (Close_s3c4_go wc (Some e) f1)) p2 f2 =
              (Some (Errorf ''already closed''), snd (Close_s3c4_go wc (Some e) f1)))"
proof -
  from reachable_ok[OF assms(1)] have ok: "handles_ok W" "confirmations_ok W" by auto
  from ok(1) assms(2) have p: "w (writers W ! h) < length (pipes W)"
    by (simp add: handles_ok_def)
  from ok(2) assms(3) have n: "confirmations W h = None"
    by (cases "confirmations W h") (auto simp: confirmations_ok_def)
  from Close_call_pipe_error[OF assms(2) p assms(3)]
  obtain W1 where e1: "exec api (AClose h (Some e)) W = Some (Failed e, W1)"
    and h1: "h < length (writers W1)" and p1: "w (writers W1 ! h) < length (pipes W1)"
    and c1: "closed (writers W1 ! h)" and f1: "pipes W1 = pipes W"
    and n1: "confirmations W1 h = None"
    using n by (metis (no_types))
  have later: "exec api (AClose h p) W2 = Some (Failed (Errorf ''already closed''), W2) \<and>
               exec api (AClosePoll h) W2 = None \<and>
               exec api (ACloseTimer h) W2 = None \<and>
               exec api (ACloseReturn h) W2 = None"
    if r: "run api acts W1 = Some (rs, W2)" for acts rs W2 p
  proof -
    from run_closed_handle[OF r h1 p1 c1]
    have "h < length (writers W2)" "w (writers W2 ! h) < length (pipes W2)"
      "closed (writers W2 ! h)" by auto
    from Close_call_closed[OF this]
    have "exec api (AClose h p) W2 = Some (Failed (Errorf ''already closed''), W2)" .
    moreover from run_no_confirmation[OF r h1 c1 n1] have "confirmations W2 h = None" .
    ultimately show ?thesis using no_confirmation_no_step by blast
  qed
  from e1 c1 f1 n1 later Close_s3c4_go_pipe_error Close_s3c4_go_closed
  show ?thesis by blast
qed

theorem failed_Close_is_final_witness:
  "\<exists>rs0 W W1.
     run mem_api [ACreate (ID ''c4x'')] (boot Map.empty ''b'' '''') = Some (rs0, W) \<and>
     0 < length (writers W) \<and> \<not> closed (writers W ! 0) \<and>
     exec mem_api (AClose 0 (Some ErrClosedPipe)) W = Some (Failed ErrClosedPipe, W1) \<and>
     exec mem_api (AClose 0 None) W1 = Some (Failed (Errorf ''already closed''), W1) \<and>
     exec mem_api (AClosePoll 0) W1 = None"
proof -
  let ?B = "boot Map.empty ''b'' '''' :: (string \<times> string \<Rightarrow> bytes option) world"
  have "\<exists>rs0 W. run mem_api [ACreate (ID ''c4x'')] ?B = Some (rs0, W) \<and>
      0 < length (writers W) \<and> \<not> closed (writers W ! 0)"
    by (simp add: eval_defs)
  then obtain rs0 W where 0: "run mem_api [ACreate (ID ''c4x'')] ?B = Some (rs0, W)"
    and h: "0 < length (writers W)" and n: "\<not> closed (writers W ! 0)" by blast
  from failed_Close_is_final[OF 0 h n, of ErrClosedPipe]
  obtain W1 where 1: "exec mem_api (AClose 0 (Some ErrClosedPipe)) W = Some (Failed ErrClosedPipe, W1)"
    and 2: "\<forall>acts rs W2 p. run mem_api acts W1 = Some (rs, W2) \<longrightarrow>
               exec mem_api (AClose 0 p) W2 = Some (Failed (Errorf ''already closed''), W2) \<and>
               exec mem_api (AClosePoll 0) W2 = None \<and>
               exec mem_api (ACloseTimer 0) W2 = None \<and>
               exec mem_api (ACloseReturn 0) W2 = None"
    by blast
  have "run mem_api [] W1 = Some ([], W1)" by simp
  with 2 have "exec mem_api (AClose 0 None) W1 = Some (Failed (Errorf ''already closed''), W1) \<and>
               exec mem_api (AClosePoll 0) W1 = None" by blast
  with 0 h n 1 show ?thesis by blast
qed

subsection \<open>The confirmation\<close>










subsection \<open>The wait group and the backend calls\<close>

lemma length_filter_update:
  "i < length xs \<Longrightarrow>
     length (filter P (xs[i := y])) + (if P (xs ! i) then 1 else 0) =
     length (filter P xs) + (if P y then 1 else 0)"
proof (induction xs arbitrary: i)
  case Nil
  then show ?case by simp
next
  case (Cons x xs)
  then show ?case by (cases i) auto
qed

lemma exec_wg:
  assumes e: "exec api a W = Some (r, W')" and i: "wg (store W) = int (live W)"
  shows "wg (store W') = int (live W')"
proof (cases a)
  case (AUploadEnd t)
  with e i length_filter_update[of t "uploads W" "\<lambda>u. ustate u \<noteq> Exited"
      "(uploads W ! t)\<lparr>ustate := Exited\<rparr>"]
  show ?thesis
    by (auto simp: op_defs live_def Let_def split_beta split: if_splits option.splits)
next
  case (AUploadAbort t e')
  with e i length_filter_update[of t "uploads W" "\<lambda>u. ustate u \<noteq> Exited"
      "(uploads W ! t)\<lparr>ustate := Exited\<rparr>"]
  show ?thesis
    by (auto simp: op_defs live_def Let_def split_beta split: if_splits option.splits)
next
  case (ACopyEnd k)
  with e i length_filter_update[of k "copies W" "\<lambda>u. cstate u \<noteq> Exited"
      "(copies W ! k)\<lparr>cstate := Exited\<rparr>"]
  show ?thesis
    by (auto simp: op_defs live_def Let_def split_beta split: if_splits option.splits)
next
  case (AUploadBegin t)
  with e i length_filter_update[of t "uploads W" "\<lambda>u. ustate u \<noteq> Exited"
      "(uploads W ! t)\<lparr>ustate := Running\<rparr>"]
  show ?thesis
    by (auto simp: op_defs live_def Let_def split_beta split: if_splits option.splits)
next
  case (ACopyBegin k)
  with e i length_filter_update[of k "copies W" "\<lambda>u. cstate u \<noteq> Exited"
      "(copies W ! k)\<lparr>cstate := Running\<rparr>"]
  show ?thesis
    by (auto simp: op_defs live_def Let_def split_beta split: if_splits option.splits)
qed (use e i in \<open>auto simp: op_defs live_def Let_def split_beta split: if_splits option.splits\<close>)

lemma reachable_wg:
  assumes "run api acts (boot b bk pre) = Some (rs, W)"
  shows "wg (store W) = int (live W)"
proof (rule run_induct_step[OF assms, where P = "\<lambda>W. wg (store W) = int (live W)"])
  show "wg (store (boot b bk pre)) = int (live (boot b bk pre))"
    by (simp add: boot_def New_def live_def)
next
  fix a r V V'
  assume "exec api a V = Some (r, V')" and "wg (store V) = int (live V)"
  then show "wg (store V') = int (live V')" by (rule exec_wg)
qed

lemma exec_counts:
  assumes "exec api a W = Some (r, W')"
  shows "length (uploads W') = length (uploads W) + (if is_Create a \<and> is_Handle r then 1 else 0) \<and>
         length (writers W') = length (writers W) + (if is_Create a \<and> is_Handle r then 1 else 0) \<and>
         length (copies W') = length (copies W) + (if is_Open a \<and> is_Handle r then 1 else 0)"
  using assms
  by (cases a)
     (auto simp: op_defs Let_def split_beta opened_def returned_def
           split: if_splits option.splits close_state.splits)

lemma run_counts:
  assumes "run api acts W = Some (rs, W')"
  shows "length rs = length acts \<and>
         length (uploads W') = length (uploads W) + n_created acts rs \<and>
         length (writers W') = length (writers W) + n_created acts rs \<and>
         length (copies W') = length (copies W) + n_opened acts rs"
  using assms
proof (induction acts arbitrary: W rs)
  case Nil
  then show ?case by (simp add: n_created_def n_opened_def)
next
  case (Cons a acts)
  from Cons.prems obtain r V rs' where e: "exec api a W = Some (r, V)"
    and r: "run api acts V = Some (rs', W')" and rs: "rs = r # rs'"
    by (auto split: option.splits)
  from Cons.IH[OF r] exec_counts[OF e] rs show ?case
    by (simp add: n_created_def n_opened_def)
qed

lemma live_zero:
  "live W = 0 \<longleftrightarrow> (\<forall>u \<in> set (uploads W). ustate u = Exited) \<and>
                     (\<forall>c \<in> set (copies W). cstate c = Exited)"
  by (auto simp: live_def filter_empty_conv)

text \<open>
  In the source file with the confirmation settings \<^verbatim>\<open>s.wg.Done()\<close> is the last statement
  of every goroutine of \<^verbatim>\<open>Create\<close> and \<^verbatim>\<open>Open\<close>. In every state that program reaches, the
  counter of the wait group is the number of these goroutines that have not exited. So when
  \<^verbatim>\<open>Close\<close> of the store returns, every goroutine spawned by the calls of \<^verbatim>\<open>Create\<close> and
  \<^verbatim>\<open>Open\<close> that returned a handle has exited; it returns \<^verbatim>\<open>nil\<close> and changes nothing.
\<close>

theorem Store_Close_waits_for_transfers:
  assumes "run api acts (boot b bk pre) = Some (rs, W)"
    and "exec api AStoreClose W = Some (r, W')"
  shows "r = Ok \<and> W' = W \<and> wg (store W) = int (live W) \<and>
         length (uploads W) = n_created acts rs \<and> length (copies W) = n_opened acts rs \<and>
         (\<forall>u \<in> set (uploads W). ustate u = Exited) \<and>
         (\<forall>c \<in> set (copies W). cstate c = Exited)"
proof -
  from assms(2) have r: "r = Ok" "W' = W" and z: "wg (store W) = 0"
    by (auto simp: Store_Close_def returned_def split: if_splits)
  from reachable_wg[OF assms(1)] have i: "wg (store W) = int (live W)" .
  with z have "live W = 0" by simp
  then have x: "(\<forall>u \<in> set (uploads W). ustate u = Exited) \<and>
                (\<forall>c \<in> set (copies W). cstate c = Exited)"
    by (simp only: live_zero)
  from run_counts[OF assms(1)]
  have n: "length (uploads W) = n_created acts rs" "length (copies W) = n_opened acts rs"
    by (simp_all add: boot_def)
  from r i n x show ?thesis by blast
qed

theorem Store_Close_waits_for_transfers_witness:
  "\<exists>rs W.
     run mem_api
       [ACreate (ID ''c4x''), AUploadBegin 0, AWrite 0 [7], AClose 0 None, AUploadEnd 0,
        AClosePoll 0, ACloseReturn 0, AOpen (ID ''c4x''), ACopyBegin 0, ARead 1 4, ACopyEnd 0]
       (boot Map.empty ''b'' '''') = Some (rs, W) \<and>
     exec mem_api AStoreClose W = Some (Ok, W) \<and>
     length (uploads W) = 1 \<and> length (copies W) = 1 \<and>
     (\<forall>u \<in> set (uploads W). ustate u = Exited) \<and>
     (\<forall>c \<in> set (copies W). cstate c = Exited)"
proof -
  let ?B = "boot Map.empty ''b'' '''' :: (string \<times> string \<Rightarrow> bytes option) world"
  let ?acts = "[ACreate (ID ''c4x''), AUploadBegin 0, AWrite 0 [7], AClose 0 None, AUploadEnd 0,
        AClosePoll 0, ACloseReturn 0, AOpen (ID ''c4x''), ACopyBegin 0, ARead 1 4, ACopyEnd 0]"
  have "\<exists>rs W. run mem_api ?acts ?B = Some (rs, W) \<and> exec mem_api AStoreClose W = Some (Ok, W) \<and>
      n_created ?acts rs = 1 \<and> n_opened ?acts rs = 1"
    by (simp add: eval_defs n_created_def n_opened_def)
  then obtain rs W where 0: "run mem_api ?acts ?B = Some (rs, W)"
    and 1: "exec mem_api AStoreClose W = Some (Ok, W)"
    and 2: "n_created ?acts rs = 1" "n_opened ?acts rs = 1" by blast
  from Store_Close_waits_for_transfers[OF 0 1] 0 1 2 show ?thesis
    by (simp only: simp_thms) blast
qed

text \<open>
  Claim C4. \<^verbatim>\<open>Close\<close> of the store is to return only after every goroutine spawned by
  \<^verbatim>\<open>Create\<close> and \<^verbatim>\<open>Open\<close> has ended. The older file \<^verbatim>\<open>s3c4.go\<close> does not keep to this: the
  deferred function of the goroutine of its \<^verbatim>\<open>Open\<close> calls \<^verbatim>\<open>s.wg.Done()\<close> before
  \<^verbatim>\<open>w.Close()\<close>. After \<^verbatim>\<open>Open\<close> of a stored object of one byte and a \<^verbatim>\<open>Read\<close> that takes the
  byte, the goroutine calls \<^verbatim>\<open>s.wg.Done()\<close>; the counter is zero and \<^verbatim>\<open>Close\<close> of the store
  returns \<^verbatim>\<open>nil\<close>, while the goroutine has not exited, the write end is open and a \<^verbatim>\<open>Read\<close>
  of the handle blocks. Only the last step of the goroutine closes the write end, and the
  reader then receives \<^verbatim>\<open>io.EOF\<close>.
\<close>

theorem Store_Close_s3c4_go_returns_before_Open_goroutine_exits:
  "\<exists>rs W W' W''.
     run mem_api [AOpen (ID ''c4x''), ACopyBegin 0, ARead 0 4]
       (boot [(''b'', ''c4x'') \<mapsto> [7]] ''b'' '''') = Some (rs, W) \<and>
     rs = [Handle 0, Step, Got [7] None] \<and>
     Copy_Done_s3c4_go 0 W = Some W' \<and>
     wg (store W') = 0 \<and>
     Store_Close W' = Some (None, W') \<and>
     cstate (copies W' ! 0) = Leaving \<and>
     werr (pipes W' ! 0) = None \<and>
     Read 0 4 W' = None \<and>
     Copy_Close_s3c4_go 0 W' = Some W'' \<and>
     cstate (copies W'' ! 0) = Exited \<and>
     Read 0 4 W'' = Some (([], Some EOF), W'')"
  by (simp add: eval_defs Copy_Done_s3c4_go_def Copy_Close_s3c4_go_def)

lemma exec_calls:
  assumes e: "exec api a W = Some (r, W')"
  shows "length (filter is_UploadCall (calls W')) =
           length (filter is_UploadCall (calls W)) + (if is_UploadBegin a then 1 else 0) \<and>
         length (filter is_DownloadCall (calls W')) =
           length (filter is_DownloadCall (calls W)) + (if is_Open a then 1 else 0)"
  using e
  by (cases a)
     (auto simp: op_defs Let_def split_beta split: if_splits option.splits)

lemma exec_started:
  assumes e: "exec api a W = Some (r, W')"
  shows "length (filter (\<lambda>u. ustate u \<noteq> Spawned) (uploads W')) =
           length (filter (\<lambda>u. ustate u \<noteq> Spawned) (uploads W)) +
           (if is_UploadBegin a then 1 else 0)"
proof (cases a)
  case (AUploadBegin t)
  with e length_filter_update[of t "uploads W" "\<lambda>u. ustate u \<noteq> Spawned"
      "(uploads W ! t)\<lparr>ustate := Running\<rparr>"]
  show ?thesis
    by (auto simp: op_defs Let_def split_beta split: if_splits option.splits)
next
  case (AUploadEnd t)
  with e length_filter_update[of t "uploads W" "\<lambda>u. ustate u \<noteq> Spawned"
      "(uploads W ! t)\<lparr>ustate := Exited\<rparr>"]
  show ?thesis
    by (auto simp: op_defs Let_def split_beta split: if_splits option.splits)
next
  case (AUploadAbort t e')
  with e length_filter_update[of t "uploads W" "\<lambda>u. ustate u \<noteq> Spawned"
      "(uploads W ! t)\<lparr>ustate := Exited\<rparr>"]
  show ?thesis
    by (auto simp: op_defs Let_def split_beta split: if_splits option.splits)
qed (use e in \<open>auto simp: op_defs Let_def split_beta split: if_splits option.splits\<close>)

lemma exec_transfers:
  assumes "exec api a W = Some (r, W')"
  shows "transfers (calls W') \<le> transfers (calls W) + 1"
  using assms
  by (cases a)
     (auto simp: op_defs transfers_def Let_def split_beta split: if_splits option.splits)

lemma exec_uploads_ok:
  assumes e: "exec api a W = Some (r, W')" and ok: "uploads_ok W"
  shows "uploads_ok W'"
proof -
  from ok have len: "length (uploads W) = length (writers W)" by (simp add: uploads_ok_def)
  have len': "length (uploads W') = length (writers W')"
    using exec_counts[OF e] len by simp
  have "ur (uploads W' ! t) = w (writers W' ! t) \<and>
        (ubucket (uploads W' ! t), ukey (uploads W' ! t)) = headInput (writers W' ! t)"
    if t: "t < length (uploads W')" for t
  proof -
    have old: "t < length (uploads W) \<Longrightarrow> ur (uploads W ! t) = w (writers W ! t) \<and>
        ubucket (uploads W ! t) = fst (headInput (writers W ! t)) \<and>
        ukey (uploads W ! t) = snd (headInput (writers W ! t))"
      using ok by (auto simp: uploads_ok_def prod_eq_iff)
    show ?thesis
      using e t old len
      by (cases a)
         (auto simp: op_defs Let_def split_beta nth_append nth_list_update less_Suc_eq
                     prod_eq_iff
               split: if_splits option.splits)
  qed
  with len' show ?thesis by (simp add: uploads_ok_def)
qed

lemma reachable_calls:
  assumes "run api acts W = Some (rs, W')"
  shows "length (filter is_UploadCall (calls W')) + length (filter (\<lambda>u. ustate u \<noteq> Spawned) (uploads W)) =
           length (filter is_UploadCall (calls W)) + length (filter (\<lambda>u. ustate u \<noteq> Spawned) (uploads W')) \<and>
         length (filter is_DownloadCall (calls W')) =
           length (filter is_DownloadCall (calls W)) + length (filter is_Open acts)"
  using assms
proof (induction acts arbitrary: W rs)
  case Nil
  then show ?case by simp
next
  case (Cons a acts)
  from Cons.prems obtain r V rs' where e: "exec api a W = Some (r, V)"
    and r: "run api acts V = Some (rs', W')"
    by (auto split: option.splits)
  from Cons.IH[OF r] exec_calls[OF e] exec_started[OF e] show ?case
    by auto
qed

lemma exec_uploads_logged:
  assumes e: "exec api a W = Some (r, W')" and ok: "uploads_logged W"
  shows "uploads_logged W'"
proof -
  have fresh: "filter (is_UploadCall_of q) (calls W) = [] \<and>
               filter (is_UploadSend_of q) (calls W) = []" if "length (pipes W) \<le> q" for q
    using ok that by (simp add: uploads_logged_def)
  have old: "ur (uploads W ! t) < length (pipes W) \<and>
         (\<forall>t' < t. ur (uploads W ! t') \<noteq> ur (uploads W ! t)) \<and>
         filter (is_UploadCall_of (ur (uploads W ! t))) (calls W) =
           (if ustate (uploads W ! t) = Spawned then []
            else [UploadCall (ubucket (uploads W ! t)) (ukey (uploads W ! t))
                    (ur (uploads W ! t))]) \<and>
         length (filter (is_UploadSend_of (ur (uploads W ! t))) (calls W)) \<le>
           (if ustate (uploads W ! t) = Exited then 1 else 0)" if "t < length (uploads W)" for t
    using ok that by (simp add: uploads_logged_def)
  have distinct: "ur (uploads W ! t') \<noteq> ur (uploads W ! t)"
    if "t < length (uploads W)" "t' < length (uploads W)" "t' \<noteq> t" for t t'
    using old[of t] old[of t'] that by (metis nat_neq_iff)
  have A: "filter (is_UploadCall_of q) (calls W') = [] \<and>
           filter (is_UploadSend_of q) (calls W') = []" if "length (pipes W') \<le> q" for q
  proof (cases a)
    case (AUploadBegin x)
    with e that fresh[of q] old[of x] show ?thesis
      by (auto simp: op_defs Let_def split_beta nth_list_update split: if_splits option.splits)
  next
    case (AUploadEnd x)
    with e that fresh[of q] old[of x] show ?thesis
      by (auto simp: op_defs Let_def split_beta nth_list_update split: if_splits option.splits)
  qed (use e that fresh[of q] fresh[of "Suc q"] in
       \<open>auto simp: op_defs Let_def split_beta split: if_splits option.splits\<close>)
  have B: "ur (uploads W' ! t) < length (pipes W') \<and>
         (\<forall>t' < t. ur (uploads W' ! t') \<noteq> ur (uploads W' ! t)) \<and>
         filter (is_UploadCall_of (ur (uploads W' ! t))) (calls W') =
           (if ustate (uploads W' ! t) = Spawned then []
            else [UploadCall (ubucket (uploads W' ! t)) (ukey (uploads W' ! t))
                    (ur (uploads W' ! t))]) \<and>
         length (filter (is_UploadSend_of (ur (uploads W' ! t))) (calls W')) \<le>
           (if ustate (uploads W' ! t) = Exited then 1 else 0)" if t: "t < length (uploads W')" for t
  proof (cases a)
    case (AUploadBegin x)
    show ?thesis
    proof (cases "t = x")
      case True
      with AUploadBegin e t old[of x] show ?thesis
        by (auto simp: op_defs Let_def split_beta nth_list_update split: if_splits option.splits)
    next
      case False
      with AUploadBegin e t old[of t] distinct[of t x] distinct[of x t] show ?thesis
        by (auto simp: op_defs Let_def split_beta nth_list_update split: if_splits option.splits)
    qed
  next
    case (AUploadEnd x)
    show ?thesis
    proof (cases "t = x")
      case True
      with AUploadEnd e t old[of x] show ?thesis
        by (auto simp: op_defs Let_def split_beta nth_list_update split: if_splits option.splits)
    next
      case False
      with AUploadEnd e t old[of t] distinct[of t x] distinct[of x t] show ?thesis
        by (auto simp: op_defs Let_def split_beta nth_list_update split: if_splits option.splits)
    qed
  next
    case (AUploadAbort x err)
    show ?thesis
    proof (cases "t = x")
      case True
      with AUploadAbort e t old[of x] show ?thesis
        by (auto simp: op_defs Let_def split_beta nth_list_update split: if_splits option.splits)
    next
      case False
      with AUploadAbort e t old[of t] show ?thesis
        by (auto simp: op_defs Let_def split_beta nth_list_update split: if_splits option.splits)
    qed
  next
    case (ACreate i)
    show ?thesis
    proof (cases "t < length (uploads W)")
      case True
      with ACreate e t old[of t] show ?thesis
        by (auto simp: op_defs Let_def split_beta nth_append opened_def
                 split: if_splits option.splits)
    next
      case False
      have bound: "\<forall>t<length (uploads W). ur (uploads W ! t) \<noteq> length (pipes W)"
        using old by fastforce
      from False ACreate e t fresh[of "length (pipes W)"] bound show ?thesis
        by (auto simp: op_defs Let_def split_beta nth_append opened_def less_Suc_eq
                 split: if_splits option.splits)
    qed
  qed (use e t old[of t] in
       \<open>auto simp: op_defs Let_def split_beta split: if_splits option.splits\<close>)
  from A B show ?thesis by (simp add: uploads_logged_def)
qed


lemma boot_uploads_logged: "uploads_logged (boot b bk pre)"
  by (simp add: uploads_logged_def boot_def)

lemma reachable_uploads_logged:
  assumes "run api acts (boot b bk pre) = Some (rs, W)"
  shows "uploads_logged W"
proof (rule run_induct_step[OF assms, where P = uploads_logged])
  show "uploads_logged (boot b bk pre)" by (rule boot_uploads_logged)
next
  fix a r V V'
  assume "exec api a V = Some (r, V')" and "uploads_logged V"
  then show "uploads_logged V'" by (rule exec_uploads_logged)
qed

lemma reachable_uploads_ok:
  assumes "run api acts (boot b bk pre) = Some (rs, W)"
  shows "uploads_ok W"
proof (rule run_induct_step[OF assms, where P = uploads_ok])
  show "uploads_ok (boot b bk pre)" by (simp add: uploads_ok_def boot_def)
next
  fix a r V V'
  assume "exec api a V = Some (r, V')" and "uploads_ok V"
  then show "uploads_ok V'" by (rule exec_uploads_ok)
qed

lemma Upload_begin_logs:
  assumes "t < length (uploads W)" and "ustate (uploads W ! t) = Spawned"
    and "ur (uploads W ! t) < length (pipes W)"
    and "filter (is_UploadCall_of (ur (uploads W ! t))) (calls W) = []"
  shows "\<exists>W'. exec api (AUploadBegin t) W = Some (Step, W') \<and>
           filter (is_UploadCall_of (ur (uploads W ! t))) (calls W') =
             [UploadCall (ubucket (uploads W ! t)) (ukey (uploads W ! t)) (ur (uploads W ! t))]"
  using assms by (simp add: Upload_begin_def Let_def set_pipe_def)

lemma Upload_end_logs:
  assumes "exec api (AUploadEnd t) W = Some (r, W')"
  shows "s3 W' = snd (Upload api (s3 W) (ubucket (uploads W ! t)) (ukey (uploads W ! t))
                        (taken (pipes W ! ur (uploads W ! t)))) \<and>
         calls W' = calls W @
           [UploadSend (ubucket (uploads W ! t)) (ukey (uploads W ! t)) (ur (uploads W ! t))]"
  using assms
  by (auto simp: op_defs Let_def split_beta split: if_splits option.splits)

lemma Open_logs:
  "s3 (snd (Open api i W)) = snd (Download api (s3 W) (bucket (store W)) (object_key (store W) i)) \<and>
   calls (snd (Open api i W)) =
     calls W @ [DownloadCall (bucket (store W)) (object_key (store W) i)]"
  by (auto simp: Open_def Let_def split_beta log_call_def wg_Add_def split: option.splits)

text \<open>
  Claim C8. The package issues calls of its uploader and its downloader. In every state the
  program reaches: each call of \<^verbatim>\<open>Create\<close> that returned a handle has spawned one goroutine,
  which reads that handle's pipe and uploads to its bucket and key, and no two handles
  share a pipe. For each handle the log holds no \<^verbatim>\<open>Upload\<close> call with its pipe as body
  before its goroutine has started and exactly one from then on; a goroutine that has not
  started can start, and has then issued exactly this call. The backend receives the body
  of a handle at most once, and only when the goroutine exits: the return of the \<^verbatim>\<open>Upload\<close>
  applies the backend's upload once, to the bytes read from the pipe, and logs it. Every
  call of \<^verbatim>\<open>Open\<close>, successful or not, applies the backend's download once and logs one
  \<^verbatim>\<open>Download\<close> call with the key of the identifier. No action issues more than one upload
  or download call.
\<close>

theorem one_transfer_per_Create_and_Open:
  assumes "run api acts (boot b bk pre) = Some (rs, W)"
  shows "length (writers W) = n_created acts rs \<and> length (uploads W) = n_created acts rs \<and>
         (\<forall>t < length (writers W).
            ur (uploads W ! t) = w (writers W ! t) \<and>
            (ubucket (uploads W ! t), ukey (uploads W ! t)) = headInput (writers W ! t) \<and>
            (\<forall>t' < t. w (writers W ! t') \<noteq> w (writers W ! t)) \<and>
            filter (is_UploadCall_of (w (writers W ! t))) (calls W) =
              (if ustate (uploads W ! t) = Spawned then []
               else [UploadCall (fst (headInput (writers W ! t)))
                       (snd (headInput (writers W ! t))) (w (writers W ! t))]) \<and>
            length (filter (is_UploadSend_of (w (writers W ! t))) (calls W)) \<le>
              (if ustate (uploads W ! t) = Exited then 1 else 0) \<and>
            (ustate (uploads W ! t) = Spawned \<longrightarrow>
               (\<exists>W'. exec api (AUploadBegin t) W = Some (Step, W') \<and>
                  filter (is_UploadCall_of (w (writers W ! t))) (calls W') =
                    [UploadCall (fst (headInput (writers W ! t)))
                       (snd (headInput (writers W ! t))) (w (writers W ! t))])) \<and>
            (\<forall>r W'. exec api (AUploadEnd t) W = Some (r, W') \<longrightarrow>
               s3 W' = snd (Upload api (s3 W) (fst (headInput (writers W ! t)))
                              (snd (headInput (writers W ! t)))
                              (taken (pipes W ! w (writers W ! t)))) \<and>
               calls W' = calls W @
                 [UploadSend (fst (headInput (writers W ! t)))
                    (snd (headInput (writers W ! t))) (w (writers W ! t))])) \<and>
         length (filter is_UploadCall (calls W)) =
           length (filter (\<lambda>u. ustate u \<noteq> Spawned) (uploads W)) \<and>
         (\<forall>i. s3 (snd (Open api i W)) =
                 snd (Download api (s3 W) (bucket (store W)) (object_key (store W) i)) \<and>
               calls (snd (Open api i W)) =
                 calls W @ [DownloadCall (bucket (store W)) (object_key (store W) i)]) \<and>
         length (filter is_DownloadCall (calls W)) = length (filter is_Open acts) \<and>
         (\<forall>a r W'. exec api a W = Some (r, W') \<longrightarrow>
            transfers (calls W') \<le> transfers (calls W) + 1)"
proof -
  from run_counts[OF assms]
  have n: "length (writers W) = n_created acts rs" "length (uploads W) = n_created acts rs"
    by (simp_all add: boot_def)
  have ok: "uploads_ok W" by (rule reachable_uploads_ok[OF assms])
  have lg: "uploads_logged W" by (rule reachable_uploads_logged[OF assms])
  have per: "ur (uploads W ! t) = w (writers W ! t) \<and>
            (ubucket (uploads W ! t), ukey (uploads W ! t)) = headInput (writers W ! t) \<and>
            (\<forall>t' < t. w (writers W ! t') \<noteq> w (writers W ! t)) \<and>
            filter (is_UploadCall_of (w (writers W ! t))) (calls W) =
              (if ustate (uploads W ! t) = Spawned then []
               else [UploadCall (fst (headInput (writers W ! t)))
                       (snd (headInput (writers W ! t))) (w (writers W ! t))]) \<and>
            length (filter (is_UploadSend_of (w (writers W ! t))) (calls W)) \<le>
              (if ustate (uploads W ! t) = Exited then 1 else 0) \<and>
            (ustate (uploads W ! t) = Spawned \<longrightarrow>
               (\<exists>W'. exec api (AUploadBegin t) W = Some (Step, W') \<and>
                  filter (is_UploadCall_of (w (writers W ! t))) (calls W') =
                    [UploadCall (fst (headInput (writers W ! t)))
                       (snd (headInput (writers W ! t))) (w (writers W ! t))])) \<and>
            (\<forall>r W'. exec api (AUploadEnd t) W = Some (r, W') \<longrightarrow>
               s3 W' = snd (Upload api (s3 W) (fst (headInput (writers W ! t)))
                              (snd (headInput (writers W ! t)))
                              (taken (pipes W ! w (writers W ! t)))) \<and>
               calls W' = calls W @
                 [UploadSend (fst (headInput (writers W ! t)))
                    (snd (headInput (writers W ! t))) (w (writers W ! t))])"
    if t: "t < length (writers W)" for t
  proof -
    from ok t have tu: "t < length (uploads W)" by (simp add: uploads_ok_def)
    from ok tu have u: "ur (uploads W ! t) = w (writers W ! t)"
      and k: "(ubucket (uploads W ! t), ukey (uploads W ! t)) = headInput (writers W ! t)"
      by (simp_all add: uploads_ok_def)
    from k have k1: "fst (headInput (writers W ! t)) = ubucket (uploads W ! t)"
      and k2: "snd (headInput (writers W ! t)) = ukey (uploads W ! t)"
      by (simp_all add: prod_eq_iff)
    from lg tu have b: "ur (uploads W ! t) < length (pipes W)"
      and d: "\<forall>t' < t. ur (uploads W ! t') \<noteq> ur (uploads W ! t)"
      and c: "filter (is_UploadCall_of (ur (uploads W ! t))) (calls W) =
           (if ustate (uploads W ! t) = Spawned then []
            else [UploadCall (ubucket (uploads W ! t)) (ukey (uploads W ! t))
                    (ur (uploads W ! t))])"
      and s: "length (filter (is_UploadSend_of (ur (uploads W ! t))) (calls W)) \<le>
           (if ustate (uploads W ! t) = Exited then 1 else 0)"
      by (simp_all add: uploads_logged_def)
    have d': "\<forall>t' < t. w (writers W ! t') \<noteq> w (writers W ! t)"
    proof (intro allI impI)
      fix t' assume "t' < t"
      with d tu ok have "ur (uploads W ! t') \<noteq> ur (uploads W ! t)"
        and "ur (uploads W ! t') = w (writers W ! t')"
        by (simp_all add: uploads_ok_def)
      with u show "w (writers W ! t') \<noteq> w (writers W ! t)" by simp
    qed
    have g: "ustate (uploads W ! t) = Spawned \<longrightarrow>
               (\<exists>W'. exec api (AUploadBegin t) W = Some (Step, W') \<and>
                  filter (is_UploadCall_of (ur (uploads W ! t))) (calls W') =
                    [UploadCall (ubucket (uploads W ! t)) (ukey (uploads W ! t))
                       (ur (uploads W ! t))])"
    proof
      assume sp: "ustate (uploads W ! t) = Spawned"
      with c have "filter (is_UploadCall_of (ur (uploads W ! t))) (calls W) = []" by simp
      from Upload_begin_logs[OF tu sp b this] show "\<exists>W'. exec api (AUploadBegin t) W = Some (Step, W') \<and>
                  filter (is_UploadCall_of (ur (uploads W ! t))) (calls W') =
                    [UploadCall (ubucket (uploads W ! t)) (ukey (uploads W ! t))
                       (ur (uploads W ! t))]" .
    qed
    have e: "\<forall>r W'. exec api (AUploadEnd t) W = Some (r, W') \<longrightarrow>
               s3 W' = snd (Upload api (s3 W) (ubucket (uploads W ! t)) (ukey (uploads W ! t))
                        (taken (pipes W ! ur (uploads W ! t)))) \<and>
               calls W' = calls W @
                 [UploadSend (ubucket (uploads W ! t)) (ukey (uploads W ! t))
                    (ur (uploads W ! t))]"
      using Upload_end_logs by blast
    from u k d' c s g e show ?thesis
      unfolding k1 k2 u by (intro conjI) assumption+
  qed
  from reachable_calls[OF assms]
  have cnt: "length (filter is_UploadCall (calls W)) =
           length (filter (\<lambda>u. ustate u \<noteq> Spawned) (uploads W))"
    and dl: "length (filter is_DownloadCall (calls W)) = length (filter is_Open acts)"
    by (simp_all add: boot_def)
  have tr: "\<forall>a r W'. exec api a W = Some (r, W') \<longrightarrow>
            transfers (calls W') \<le> transfers (calls W) + 1"
    using exec_transfers by blast
  from n per cnt Open_logs dl tr show ?thesis by (intro conjI allI impI) blast+
qed

theorem one_transfer_per_Create_and_Open_witness:
  "\<exists>rs W.
     run mem_api
       [ACreate (ID ''c4x''), ACreate (ID ''c4y''), AUploadBegin 0, AWrite 0 [7], AClose 0 None,
        AUploadEnd 0, AOpen (ID ''c4x''), AOpen (ID ''c4z''), ACreate (ID ''c4x'')]
       (boot Map.empty ''b'' '''') = Some (rs, W) \<and>
     rs = [Handle 0, Handle 1, Step, Wrote 1 None, Parked, Step, Handle 2,
           Failed (Errorf ''c4z NoSuchKey (n == 0)''),
           Failed (PathError ''create'' ''c4x'' ErrExist)] \<and>
     length (writers W) = 2 \<and>
     filter (is_UploadCall_of 0) (calls W) = [UploadCall ''b'' ''c4x'' 0] \<and>
     length (filter (is_UploadSend_of 0) (calls W)) \<le> 1 \<and>
     filter (is_UploadCall_of 1) (calls W) = [] \<and>
     length (filter (is_UploadSend_of 1) (calls W)) \<le> 0 \<and>
     (\<exists>W'. exec mem_api (AUploadBegin 1) W = Some (Step, W') \<and>
        filter (is_UploadCall_of 1) (calls W') = [UploadCall ''b'' ''c4y'' 1]) \<and>
     length (filter is_DownloadCall (calls W)) = 2"
proof -
  let ?B = "boot Map.empty ''b'' '''' :: (string \<times> string \<Rightarrow> bytes option) world"
  let ?acts = "[ACreate (ID ''c4x''), ACreate (ID ''c4y''), AUploadBegin 0, AWrite 0 [7],
        AClose 0 None, AUploadEnd 0, AOpen (ID ''c4x''), AOpen (ID ''c4z''), ACreate (ID ''c4x'')]"
  have "\<exists>rs W. run mem_api ?acts ?B = Some (rs, W) \<and>
     rs = [Handle 0, Handle 1, Step, Wrote 1 None, Parked, Step, Handle 2,
           Failed (Errorf ''c4z NoSuchKey (n == 0)''),
           Failed (PathError ''create'' ''c4x'' ErrExist)] \<and>
     w (writers W ! 0) = 0 \<and> headInput (writers W ! 0) = (''b'', ''c4x'') \<and>
     ustate (uploads W ! 0) = Exited \<and>
     w (writers W ! 1) = 1 \<and> headInput (writers W ! 1) = (''b'', ''c4y'') \<and>
     ustate (uploads W ! 1) = Spawned"
    by (simp add: eval_defs)
  then obtain rs W where 0: "run mem_api ?acts ?B = Some (rs, W)"
    and 1: "rs = [Handle 0, Handle 1, Step, Wrote 1 None, Parked, Step, Handle 2,
           Failed (Errorf ''c4z NoSuchKey (n == 0)''),
           Failed (PathError ''create'' ''c4x'' ErrExist)]"
    and h0: "w (writers W ! 0) = 0" "headInput (writers W ! 0) = (''b'', ''c4x'')"
      "ustate (uploads W ! 0) = Exited"
    and h1: "w (writers W ! 1) = 1" "headInput (writers W ! 1) = (''b'', ''c4y'')"
      "ustate (uploads W ! 1) = Spawned" by blast
  from 1 have 3: "n_created ?acts rs = 2" by (simp add: n_created_def)
  have 4: "length (filter is_Open ?acts) = 2" by simp
  note T = one_transfer_per_Create_and_Open[OF 0]
  from T 3 have len: "length (writers W) = 2" by simp
  from T have per: "\<forall>t < length (writers W).
            filter (is_UploadCall_of (w (writers W ! t))) (calls W) =
              (if ustate (uploads W ! t) = Spawned then []
               else [UploadCall (fst (headInput (writers W ! t)))
                       (snd (headInput (writers W ! t))) (w (writers W ! t))]) \<and>
            length (filter (is_UploadSend_of (w (writers W ! t))) (calls W)) \<le>
              (if ustate (uploads W ! t) = Exited then 1 else 0) \<and>
            (ustate (uploads W ! t) = Spawned \<longrightarrow>
               (\<exists>W'. exec mem_api (AUploadBegin t) W = Some (Step, W') \<and>
                  filter (is_UploadCall_of (w (writers W ! t))) (calls W') =
                    [UploadCall (fst (headInput (writers W ! t)))
                       (snd (headInput (writers W ! t))) (w (writers W ! t))]))"
    by blast
  from per[rule_format, of 0] len h0
  have a: "filter (is_UploadCall_of 0) (calls W) = [UploadCall ''b'' ''c4x'' 0]"
    and b: "length (filter (is_UploadSend_of 0) (calls W)) \<le> 1"
    by simp_all
  from per[rule_format, of 1] len h1
  have c: "filter (is_UploadCall_of 1) (calls W) = []"
    and d: "length (filter (is_UploadSend_of 1) (calls W)) \<le> 0"
    and e: "\<exists>W'. exec mem_api (AUploadBegin 1) W = Some (Step, W') \<and>
        filter (is_UploadCall_of 1) (calls W') = [UploadCall ''b'' ''c4y'' 1]"
    by simp_all
  from T 4 have f: "length (filter is_DownloadCall (calls W)) = 2" by simp
  from 0 1 len a b c d e f show ?thesis by blast
qed
text \<open>
  The claim counts \<^verbatim>\<open>PutObject\<close> and \<^verbatim>\<open>GetObject\<close> requests. With the transfer managers of
  the SDK, one successful \<^verbatim>\<open>Open\<close> of an object of 6 MiB is one \<^verbatim>\<open>Download\<close> call and two
  \<^verbatim>\<open>GetObject\<close> requests.
\<close>

theorem Open_sends_two_GetObject:
  "fst (Open sdk_api (ID ''c4x'')
          (boot \<lparr> objects = [(''b'', ''c4x'') \<mapsto> replicate 6291456 0], requests = [] \<rparr>
             ''b'' '''')) = Inr 0 \<and>
   calls (snd (Open sdk_api (ID ''c4x'')
          (boot \<lparr> objects = [(''b'', ''c4x'') \<mapsto> replicate 6291456 0], requests = [] \<rparr>
             ''b'' ''''))) = [DownloadCall ''b'' ''c4x''] \<and>
   requests (s3 (snd (Open sdk_api (ID ''c4x'')
          (boot \<lparr> objects = [(''b'', ''c4x'') \<mapsto> replicate 6291456 0], requests = [] \<rparr>
             ''b'' '''')))) =
     [GetObjectRequest ''b'' ''c4x'' 0 5242879, GetObjectRequest ''b'' ''c4x'' 5242880 10485759]"
  by (simp add: Open_def boot_def New_def object_key_def log_call_def wg_Add_def Let_def
        sdk_api_def sdk_Download_def DefaultDownloadPartSize_def download_ranges.simps)

subsection \<open>The round trip\<close>

























end
